theory Spec2Isabelle
  imports Complex_Main "HOL-Library.Word"
begin

section \<open>tinyplist: the XML property-list parser and serializer\<close>

text \<open>
  A shallow embedding of \<^verbatim>\<open>tinyplist/parser.mjs\<close> and \<^verbatim>\<open>tinyplist/serializer.mjs\<close>.
  Both modules work on a DOM tree; the XML text is read and written by the browser
  (\<^verbatim>\<open>DOMParser\<close>, \<^verbatim>\<open>XMLSerializer\<close>). The embedding starts from the tree that
  \<^verbatim>\<open>DOMParser\<close> hands to \<^verbatim>\<open>parse\<close> and ends at the tree that \<^verbatim>\<open>serialize\<close>
  hands to \<^verbatim>\<open>XMLSerializer\<close>.

  A JavaScript string is a list of code units; the embedding keeps the code units below
  256, one \<^typ>\<open>char\<close> each.
\<close>

subsection \<open>The host: what the browser provides\<close>

text \<open>
  Two feature tests of the source (\<^verbatim>\<open>typeof Uint8Array.fromBase64 === "function"\<close>,
  \<^verbatim>\<open>typeof bytes.toBase64 === "function"\<close>) and the two conversions of \<^verbatim>\<open>Date\<close>
  (\<^verbatim>\<open>new Date(text)\<close>, whose fall-back formats are implementation-defined, and
  \<^verbatim>\<open>toISOString\<close>) are parameters of the embedding. A time value is a number of
  milliseconds; \<open>None\<close> is the time value \<^verbatim>\<open>NaN\<close> of an invalid date.
\<close>

record host =
  has_fromBase64 :: bool
  has_toBase64 :: bool
  date_parse :: "string \<Rightarrow> int option"
  date_toISOString :: "int \<Rightarrow> string"

type_synonym byte = "8 word"

subsection \<open>White space\<close>

text \<open>
  The class \<^verbatim>\<open>\s\<close> of a regular expression, which is also the white space and line
  terminators that \<^verbatim>\<open>Number\<close>, \<^verbatim>\<open>BigInt\<close> and \<^verbatim>\<open>parseFloat\<close> trim: TAB, LF, VT,
  FF, CR, SPACE and NBSP among the code units below 256.
\<close>

definition is_js_space :: "char \<Rightarrow> bool" where
  "is_js_space c = (c \<in> set [CHR 0x09, CHR 0x0A, CHR 0x0B, CHR 0x0C, CHR 0x0D, CHR 0x20, CHR 0xA0])"

text \<open>ASCII white space, which the base64 decoders skip: TAB, LF, FF, CR and SPACE.\<close>

definition is_ascii_space :: "char \<Rightarrow> bool" where
  "is_ascii_space c = (c \<in> set [CHR 0x09, CHR 0x0A, CHR 0x0C, CHR 0x0D, CHR 0x20])"

text \<open>\<^verbatim>\<open>b64.replace(/\s/g, "")\<close>\<close>

definition strip_spaces :: "string \<Rightarrow> string" where
  "strip_spaces s = filter (\<lambda>c. \<not> is_js_space c) s"

subsection \<open>Numbers and their conversions, as ECMAScript defines them\<close>

text \<open>
  A JavaScript number is a double: \<^verbatim>\<open>NaN\<close>, an infinity, negative zero, or a finite
  value, kept here as the real number it stands for (\<open>Finite 0\<close> is \<^verbatim>\<open>+0\<close>).
\<close>

datatype number = NaN | PosInf | NegInf | NegZero | Finite real

fun negate :: "number \<Rightarrow> number" where
  "negate NaN = NaN"
| "negate PosInf = NegInf"
| "negate NegInf = PosInf"
| "negate NegZero = Finite 0"
| "negate (Finite x) = (if x = 0 then NegZero else Finite (- x))"

text \<open>\<^verbatim>\<open>Number.isInteger\<close> and \<^verbatim>\<open>Number.isSafeInteger\<close>\<close>

fun is_integer :: "number \<Rightarrow> bool" where
  "is_integer (Finite x) = (of_int \<lfloor>x\<rfloor> = x)"
| "is_integer NegZero = True"
| "is_integer _ = False"

fun is_safe_integer :: "number \<Rightarrow> bool" where
  "is_safe_integer (Finite x) = (of_int \<lfloor>x\<rfloor> = x \<and> \<bar>x\<bar> \<le> 2 ^ 53 - 1)"
| "is_safe_integer NegZero = True"
| "is_safe_integer _ = False"

text \<open>
  The exponent of a positive real to a base: \<open>floor_log b q\<close> is the \<open>e\<close> with
  \<open>b ^ e \<le> q < b ^ (e + 1)\<close>, found by dividing or multiplying by the base.
\<close>

function quotients :: "nat \<Rightarrow> real \<Rightarrow> nat" where
  "quotients b q = (if b < 2 \<or> q < of_nat b then 0 else Suc (quotients b (q / of_nat b)))"
  by pat_completeness auto
termination
proof (relation "measure (\<lambda>(b, q). nat \<lfloor>q\<rfloor>)")
  show "wf (measure (\<lambda>(b, q). nat \<lfloor>q\<rfloor>))" by simp
next
  fix b :: nat and q :: real
  assume "\<not> (b < 2 \<or> q < of_nat b)"
  then have b: "2 \<le> b" and q: "of_nat b \<le> q" by auto
  have b2: "(2::real) \<le> of_nat b" using b by (metis of_nat_le_iff of_nat_numeral)
  then have q2: "2 \<le> q" using q by simp
  have "q / of_nat b \<le> q / 2" using b2 q2 by (intro divide_left_mono) auto
  also have "\<dots> \<le> q - 1" using q2 by simp
  finally have "\<lfloor>q / of_nat b\<rfloor> \<le> \<lfloor>q - 1\<rfloor>" by (rule floor_mono)
  moreover have "2 \<le> \<lfloor>q\<rfloor>" using q2 by (simp add: le_floor_iff)
  ultimately show "((b, q / of_nat b), (b, q)) \<in> measure (\<lambda>(b, q). nat \<lfloor>q\<rfloor>)" by simp
qed

function products :: "nat \<Rightarrow> real \<Rightarrow> nat" where
  "products b q = (if b < 2 \<or> q \<le> 0 \<or> 1 \<le> q then 0 else Suc (products b (q * of_nat b)))"
  by pat_completeness auto
termination
proof (relation "measure (\<lambda>(b, q). nat \<lceil>1 / q\<rceil>)")
  show "wf (measure (\<lambda>(b, q). nat \<lceil>1 / q\<rceil>))" by simp
next
  fix b :: nat and q :: real
  assume "\<not> (b < 2 \<or> q \<le> 0 \<or> 1 \<le> q)"
  then have b: "2 \<le> b" and q: "0 < q" "q < 1" by auto
  have b2: "(2::real) \<le> of_nat b" using b by (metis of_nat_le_iff of_nat_numeral)
  have y: "1 < 1 / q" using q by simp
  then have "1 < \<lceil>1 / q\<rceil>" by (simp add: less_ceiling_iff)
  then have c2: "2 \<le> \<lceil>1 / q\<rceil>" by simp
  have "1 / (q * of_nat b) = (1 / q) / of_nat b" by simp
  also have "\<dots> \<le> (1 / q) / 2" using b2 q by (intro divide_left_mono) auto
  also have "\<dots> \<le> of_int \<lceil>1 / q\<rceil> / 2" by (simp add: divide_right_mono)
  also have "\<dots> \<le> of_int (\<lceil>1 / q\<rceil> - 1)" using c2 by simp
  finally have "\<lceil>1 / (q * of_nat b)\<rceil> \<le> \<lceil>1 / q\<rceil> - 1" by (rule ceiling_le)
  then show "((b, q * of_nat b), (b, q)) \<in> measure (\<lambda>(b, q). nat \<lceil>1 / q\<rceil>)"
    using c2 q by simp
qed

declare quotients.simps [simp del] products.simps [simp del]

definition floor_log :: "nat \<Rightarrow> real \<Rightarrow> int" where
  "floor_log b q = (if 1 \<le> q then int (quotients b q) else - int (products b q))"

text \<open>
  The double for a real number that is not negative: the nearest value with a 53-bit
  significand and an exponent of at least \<open>-1074\<close>, ties to the even significand,
  and \<^verbatim>\<open>Infinity\<close> from \<open>2 ^ 1024\<close> on.
\<close>

definition round_half_even :: "real \<Rightarrow> int" where
  "round_half_even r =
     (let f = \<lfloor>r\<rfloor>; d = r - of_int f
      in if d < 1 / 2 then f else if 1 / 2 < d then f + 1 else if even f then f else f + 1)"

definition to_double :: "real \<Rightarrow> number" where
  "to_double q =
     (let p = max (floor_log 2 q - 52) (- 1074);
          v = of_int (round_half_even (q / 2 powi p)) * 2 powi p
      in if 2 ^ 1024 \<le> v then PosInf else Finite v)"

text \<open>Digits.\<close>

fun index_of :: "'a \<Rightarrow> 'a list \<Rightarrow> nat option" where
  "index_of x [] = None"
| "index_of x (y # ys) = (if x = y then Some 0 else map_option Suc (index_of x ys))"

definition is_digit :: "char \<Rightarrow> bool" where
  "is_digit c = (c \<in> set ''0123456789'')"

definition digit_value :: "char \<Rightarrow> nat" where
  "digit_value c =
     (case index_of c ''0123456789abcdef'' of
        Some n \<Rightarrow> n
      | None \<Rightarrow> (case index_of c ''0123456789ABCDEF'' of Some n \<Rightarrow> n | None \<Rightarrow> 0))"

definition is_digit_of :: "nat \<Rightarrow> char \<Rightarrow> bool" where
  "is_digit_of b c = (c \<in> set ''0123456789abcdefABCDEF'' \<and> digit_value c < b)"

definition digits_value :: "nat \<Rightarrow> string \<Rightarrow> nat" where
  "digits_value b ds = foldl (\<lambda>a c. a * b + digit_value c) 0 ds"

definition digit_char :: "nat \<Rightarrow> char" where
  "digit_char n = ''0123456789'' ! (n mod 10)"

fun show_nat :: "nat \<Rightarrow> string" where
  "show_nat n = (if n < 10 then [digit_char n] else show_nat (n div 10) @ [digit_char (n mod 10)])"

declare show_nat.simps [simp del]

text \<open>\<^verbatim>\<open>String(value)\<close> for a \<^verbatim>\<open>bigint\<close>: the decimal digits, with \<^verbatim>\<open>-\<close> when negative.\<close>

definition bigint_to_string :: "int \<Rightarrow> string" where
  "bigint_to_string i = (if i < 0 then CHR ''-'' # show_nat (nat (- i)) else show_nat (nat i))"

text \<open>
  The numeric string grammar. \<open>parse_decimal\<close> reads the longest prefix that is a
  \<^verbatim>\<open>StrDecimalLiteral\<close> (a sign, then \<^verbatim>\<open>Infinity\<close> or digits with an optional
  fraction and exponent) and returns its number and the rest of the string;
  \<open>parse_nondecimal\<close> reads a whole binary, octal or hexadecimal integer literal.
\<close>

definition split_sign :: "string \<Rightarrow> bool \<times> string" where
  "split_sign s =
     (case s of
        [] \<Rightarrow> (False, s)
      | c # r \<Rightarrow> if c = CHR ''-'' then (True, r) else if c = CHR ''+'' then (False, r) else (False, s))"

definition parse_exponent :: "string \<Rightarrow> int \<times> string" where
  \<comment> \<open>an \<^verbatim>\<open>ExponentPart\<close> at the start of the string; exponent 0 and the whole string
      when there is none\<close>
  "parse_exponent s =
     (case s of
        [] \<Rightarrow> (0, s)
      | c # r \<Rightarrow>
          if c = CHR ''e'' \<or> c = CHR ''E'' then
            (let sr = split_sign r; ds = takeWhile is_digit (snd sr) in
             if ds = [] then (0, s)
             else (if fst sr then - int (digits_value 10 ds) else int (digits_value 10 ds),
                   dropWhile is_digit (snd sr)))
          else (0, s))"

definition parse_unsigned_decimal :: "string \<Rightarrow> (number \<times> string) option" where
  "parse_unsigned_decimal s =
     (if take 8 s = ''Infinity'' then Some (PosInf, drop 8 s)
      else
        (let ip = takeWhile is_digit s; r1 = dropWhile is_digit s;
             dot = (r1 \<noteq> [] \<and> hd r1 = CHR ''.'');
             fp = (if dot then takeWhile is_digit (tl r1) else []);
             r2 = (if dot then dropWhile is_digit (tl r1) else r1);
             m = real (digits_value 10 (ip @ fp)) / 10 ^ length fp;
             ex = parse_exponent r2 in
         if ip = [] \<and> fp = [] then None
         else Some (to_double (m * 10 powi fst ex), snd ex)))"

definition parse_decimal :: "string \<Rightarrow> (number \<times> string) option" where
  "parse_decimal s =
     (let sr = split_sign s in
      case parse_unsigned_decimal (snd sr) of
        None \<Rightarrow> None
      | Some vr \<Rightarrow> Some (if fst sr then negate (fst vr) else fst vr, snd vr))"

definition parse_nondecimal :: "string \<Rightarrow> nat option" where
  "parse_nondecimal s =
     (case s of
        z # x # ds \<Rightarrow>
          (let b = (if x \<in> set ''bB'' then 2 else if x \<in> set ''oO'' then 8
                    else if x \<in> set ''xX'' then 16 else (0::nat)) in
           if z = CHR ''0'' \<and> b \<noteq> 0 \<and> ds \<noteq> [] \<and> list_all (is_digit_of b) ds
           then Some (digits_value b ds) else None)
      | _ \<Rightarrow> None)"

definition trim :: "string \<Rightarrow> string" where
  "trim s = rev (dropWhile is_js_space (rev (dropWhile is_js_space s)))"

text \<open>
  \<^verbatim>\<open>Number(text)\<close>: white space is trimmed; the empty string is \<^verbatim>\<open>0\<close>; a string
  that is not a numeric literal is \<^verbatim>\<open>NaN\<close>.
\<close>

definition string_to_number :: "string \<Rightarrow> number" where
  "string_to_number s =
     (let t = trim s in
      if t = [] then Finite 0
      else
        (case parse_decimal t of
           Some (v, []) \<Rightarrow> v
         | _ \<Rightarrow> (case parse_nondecimal t of Some n \<Rightarrow> to_double (real n) | None \<Rightarrow> NaN)))"

text \<open>
  \<^verbatim>\<open>parseFloat(text)\<close>: leading white space is skipped, the longest prefix that is a
  decimal literal is read; \<^verbatim>\<open>NaN\<close> when there is none.
\<close>

definition parseFloat :: "string \<Rightarrow> number" where
  "parseFloat s =
     (case parse_decimal (dropWhile is_js_space s) of Some (v, _) \<Rightarrow> v | None \<Rightarrow> NaN)"

text \<open>
  \<^verbatim>\<open>BigInt(text)\<close>: white space is trimmed; the empty string is \<^verbatim>\<open>0n\<close>; signed decimal
  digits or a binary, octal or hexadecimal literal are read; anything else throws a
  \<^verbatim>\<open>SyntaxError\<close> (\<open>None\<close>).
\<close>

definition string_to_bigint :: "string \<Rightarrow> int option" where
  "string_to_bigint s =
     (let t = trim s in
      if t = [] then Some 0
      else
        (let sr = split_sign t; ds = snd sr in
         if ds \<noteq> [] \<and> list_all is_digit ds
         then Some (if fst sr then - int (digits_value 10 ds) else int (digits_value 10 ds))
         else map_option int (parse_nondecimal t)))"

text \<open>
  \<^verbatim>\<open>String(value)\<close> for a number (\<^verbatim>\<open>Number::toString\<close>). For a positive finite \<open>x\<close>
  it takes integers \<open>n\<close>, \<open>k\<close> and \<open>s\<close> with \<open>10 ^ (k - 1) \<le> s < 10 ^ k\<close>, such
  that \<open>s * 10 ^ (n - k)\<close> converts to \<open>x\<close> and \<open>k\<close> is as small as possible.
  \<open>decimal_candidate x k\<close> looks for \<open>s\<close> and \<open>n\<close> at a given \<open>k\<close>: the two
  \<open>k\<close>-digit decimals next to \<open>x\<close> are tried, the closer one first, the even one when
  they are equally close. Seventeen digits identify every double.
\<close>

definition decimal_candidate :: "real \<Rightarrow> nat \<Rightarrow> (nat \<times> int) option" where
  "decimal_candidate x k =
     (let n = floor_log 10 x + 1;
          scale = 10 powi (n - int k);
          lo = \<lfloor>x / scale\<rfloor>;
          hi = lo + 1;
          ok_lo = (to_double (of_int lo * scale) = Finite x);
          ok_hi = (to_double (of_int hi * scale) = Finite x);
          pick_hi = (ok_hi \<and> (\<not> ok_lo \<or> of_int hi * scale - x < x - of_int lo * scale \<or>
                     (of_int hi * scale - x = x - of_int lo * scale \<and> even hi)))
      in if pick_hi then (if hi = 10 ^ k then Some (10 ^ (k - 1), n + 1) else Some (nat hi, n))
         else if ok_lo then Some (nat lo, n)
         else None)"

function shortest_digits_from :: "real \<Rightarrow> nat \<Rightarrow> nat \<times> int" where
  "shortest_digits_from x k =
     (if 17 \<le> k then (nat \<lfloor>x / 10 powi (floor_log 10 x - 16)\<rfloor>, floor_log 10 x + 1)
      else
        (case decimal_candidate x k of
           Some r \<Rightarrow> r
         | None \<Rightarrow> shortest_digits_from x (Suc k)))"
  by pat_completeness auto
termination
  by (relation "measure (\<lambda>(x, k). 17 - k)") auto

declare shortest_digits_from.simps [simp del]

definition format_digits :: "nat \<times> int \<Rightarrow> string" where
  "format_digits r =
     (let ds = show_nat (fst r); k = int (length ds); n = snd r in
      if k \<le> n \<and> n \<le> 21 then ds @ replicate (nat (n - k)) (CHR ''0'')
      else if 0 < n \<and> n \<le> 21 then take (nat n) ds @ ''.'' @ drop (nat n) ds
      else if - 6 < n \<and> n \<le> 0 then ''0.'' @ replicate (nat (- n)) (CHR ''0'') @ ds
      else
        (let e = n - 1;
             es = (if 0 \<le> e then ''+'' else ''-'') @ show_nat (nat \<bar>e\<bar>) in
         if k = 1 then ds @ ''e'' @ es
         else take 1 ds @ ''.'' @ drop 1 ds @ ''e'' @ es))"

fun number_to_string :: "number \<Rightarrow> string" where
  "number_to_string NaN = ''NaN''"
| "number_to_string PosInf = ''Infinity''"
| "number_to_string NegInf = ''-Infinity''"
| "number_to_string NegZero = ''0''"
| "number_to_string (Finite x) =
     (if x = 0 then ''0''
      else if x < 0 then CHR ''-'' # format_digits (shortest_digits_from (- x) 1)
      else format_digits (shortest_digits_from x 1))"

subsection \<open>Base64, as the browser encodes and decodes it\<close>

definition base64_alphabet :: string where
  "base64_alphabet = ''ABCDEFGHIJKLMNOPQRSTUVWXYZabcdefghijklmnopqrstuvwxyz0123456789+/''"

definition base64_char :: "nat \<Rightarrow> char" where
  "base64_char n = base64_alphabet ! (n mod 64)"

definition base64_index :: "char \<Rightarrow> nat option" where
  "base64_index c = index_of c base64_alphabet"

text \<open>
  \<^verbatim>\<open>Uint8Array.prototype.toBase64()\<close> with its default options, and \<^verbatim>\<open>btoa\<close> on the
  code units of a binary string: the standard alphabet, padded, no line breaks.
\<close>

fun base64_encode :: "nat list \<Rightarrow> string" where
  "base64_encode [] = []"
| "base64_encode [a] =
     [base64_char (a div 4), base64_char ((a mod 4) * 16), CHR ''='', CHR ''='']"
| "base64_encode [a, b] =
     [base64_char (a div 4), base64_char ((a mod 4) * 16 + b div 16),
      base64_char ((b mod 16) * 4), CHR ''='']"
| "base64_encode (a # b # c # rest) =
     [base64_char (a div 4), base64_char ((a mod 4) * 16 + b div 16),
      base64_char ((b mod 16) * 4 + c div 64), base64_char (c mod 64)] @ base64_encode rest"

definition toBase64 :: "byte list \<Rightarrow> string" where
  "toBase64 bytes = base64_encode (map unat bytes)"

text \<open>\<^verbatim>\<open>btoa\<close> throws on a code unit above 255; a \<^typ>\<open>char\<close> is never above it.\<close>

definition btoa :: "string \<Rightarrow> string" where
  "btoa bin = base64_encode (map of_char bin)"

text \<open>
  The bytes of a group of two, three or four sextets; the bits left over in a short
  group are dropped.
\<close>

fun decode_chunk :: "nat list \<Rightarrow> nat list" where
  "decode_chunk [s0, s1] = [(s0 * 4 + s1 div 16) mod 256]"
| "decode_chunk [s0, s1, s2] =
     [(s0 * 4 + s1 div 16) mod 256, ((s1 mod 16) * 16 + s2 div 4) mod 256]"
| "decode_chunk [s0, s1, s2, s3] =
     [(s0 * 4 + s1 div 16) mod 256, ((s1 mod 16) * 16 + s2 div 4) mod 256,
      ((s2 mod 4) * 64 + s3) mod 256]"
| "decode_chunk _ = []"

text \<open>
  \<^verbatim>\<open>Uint8Array.fromBase64(string)\<close> with its default options (the alphabet
  \<^verbatim>\<open>base64\<close>, the last chunk handled \<^verbatim>\<open>loose\<close>): ASCII white space is skipped, a
  character outside the alphabet, a lone last character and misplaced padding throw
  (\<open>None\<close>). The first argument is the chunk read so far.
\<close>

fun fromBase64_from :: "nat list \<Rightarrow> string \<Rightarrow> nat list option" where
  "fromBase64_from chunk [] =
     (if chunk = [] then Some []
      else if length chunk = 1 then None
      else Some (decode_chunk chunk))"
| "fromBase64_from chunk (c # cs) =
     (if is_ascii_space c then fromBase64_from chunk cs
      else if c = CHR ''='' then
        (if length chunk < 2 then None
         else if length chunk = 2 then
           (case dropWhile is_ascii_space cs of
              [] \<Rightarrow> None
            | d # ds \<Rightarrow>
                if d = CHR ''='' \<and> dropWhile is_ascii_space ds = []
                then Some (decode_chunk chunk) else None)
         else if dropWhile is_ascii_space cs = [] then Some (decode_chunk chunk)
         else None)
      else
        (case base64_index c of
           None \<Rightarrow> None
         | Some v \<Rightarrow>
             if length chunk = 3
             then map_option (\<lambda>bytes. decode_chunk (chunk @ [v]) @ bytes) (fromBase64_from [] cs)
             else fromBase64_from (chunk @ [v]) cs))"

definition fromBase64 :: "string \<Rightarrow> byte list option" where
  "fromBase64 s = map_option (map of_nat) (fromBase64_from [] s)"

text \<open>
  \<^verbatim>\<open>atob\<close>, the forgiving base64 decoder: ASCII white space is removed; when the
  length is a multiple of four, one or two \<^verbatim>\<open>=\<close> at the end are removed; a length of
  one modulo four, or a character outside the alphabet, throws (\<open>None\<close>). The result is
  a binary string, one code unit for each byte.
\<close>

definition strip_padding :: "string \<Rightarrow> string" where
  "strip_padding s =
     (if length s mod 4 = 0 \<and> s \<noteq> [] \<and> last s = CHR ''='' then
        (if butlast s \<noteq> [] \<and> last (butlast s) = CHR ''='' then butlast (butlast s)
         else butlast s)
      else s)"

fun decode_sextets :: "nat list \<Rightarrow> nat list" where
  "decode_sextets (s0 # s1 # s2 # s3 # rest) = decode_chunk [s0, s1, s2, s3] @ decode_sextets rest"
| "decode_sextets chunk = decode_chunk chunk"

definition atob :: "string \<Rightarrow> string option" where
  "atob s =
     (let d = strip_padding (filter (\<lambda>c. \<not> is_ascii_space c) s) in
      if length d mod 4 = 1 \<or> (\<exists>c \<in> set d. base64_index c = None) then None
      else Some (map char_of (decode_sextets (map (\<lambda>c. the (base64_index c)) d))))"

subsection \<open>The binary data codec of the two modules\<close>

text \<open>
  \<^verbatim>\<open>b64(bytes)\<close> of the serializer: \<^verbatim>\<open>toBase64\<close> where the host has it, else
  \<^verbatim>\<open>btoa\<close> of the string built with \<^verbatim>\<open>String.fromCharCode\<close>.
\<close>

definition b64 :: "host \<Rightarrow> byte list \<Rightarrow> string" where
  "b64 h bytes =
     (if has_toBase64 h then toBase64 bytes
      else btoa (map (\<lambda>b. char_of (unat b)) bytes))"

datatype error =
    XMLError string
  | MissingPlist
  | SyntaxError
  | InvalidCharacterError
  | TypeError
  | RangeError

text \<open>
  \<^verbatim>\<open>data(b64)\<close> of the parser: white space is stripped, then \<^verbatim>\<open>fromBase64\<close> where the
  host has it, else \<^verbatim>\<open>atob\<close> and \<^verbatim>\<open>charCodeAt\<close> for every code unit.
\<close>

definition parse_data :: "host \<Rightarrow> string \<Rightarrow> error + byte list" where
  "parse_data h text_b64 =
     (let clean = strip_spaces text_b64 in
      if has_fromBase64 h then
        (case fromBase64 clean of None \<Rightarrow> Inl SyntaxError | Some bytes \<Rightarrow> Inr bytes)
      else
        (case atob clean of
           None \<Rightarrow> Inl InvalidCharacterError
         | Some bin \<Rightarrow> Inr (map (\<lambda>c. of_nat (of_char c)) bin)))"

subsection \<open>The DOM tree\<close>

text \<open>
  An element has a tag name, attributes and child nodes; a text node has its data.
  Comments and processing instructions are left out: they are neither element children
  nor part of \<^verbatim>\<open>textContent\<close>.
\<close>

datatype node =
    Element (tagName: string) (attributes: "(string \<times> string) list") (childNodes: "node list")
  | Text string

fun is_element :: "node \<Rightarrow> bool" where
  "is_element (Element t a cs) = True"
| "is_element (Text s) = False"

text \<open>\<^verbatim>\<open>node.children\<close>: the child nodes that are elements.\<close>

fun children :: "node \<Rightarrow> node list" where
  "children (Element t a cs) = filter is_element cs"
| "children (Text s) = []"

text \<open>\<^verbatim>\<open>node.textContent\<close>: the text of all descendants, in document order.\<close>

fun textContent :: "node \<Rightarrow> string" where
  "textContent (Text s) = s"
| "textContent (Element t a cs) = concat (map textContent cs)"

text \<open>
  \<^verbatim>\<open>doc.querySelector(tag)\<close> with a type selector: the first element of the document, in
  document order, with that tag name. The document is given by its root element.
\<close>

fun querySelector :: "string \<Rightarrow> node \<Rightarrow> node option"
  and querySelector_list :: "string \<Rightarrow> node list \<Rightarrow> node option" where
  "querySelector tag (Text s) = None"
| "querySelector tag (Element t a cs) =
     (if t = tag then Some (Element t a cs) else querySelector_list tag cs)"
| "querySelector_list tag [] = None"
| "querySelector_list tag (c # cs) =
     (case querySelector tag c of Some e \<Rightarrow> Some e | None \<Rightarrow> querySelector_list tag cs)"

text \<open>\<^verbatim>\<open>xs[i]\<close>, which is \<^verbatim>\<open>undefined\<close> out of range.\<close>

definition nth_opt :: "'a list \<Rightarrow> nat \<Rightarrow> 'a option" where
  "nth_opt xs i = (if i < length xs then Some (xs ! i) else None)"

subsection \<open>JavaScript values\<close>

text \<open>
  The values the two modules read and write. An array lists its elements, a hole as
  \<open>JUndefined\<close>; a plain object lists its own properties in the order in which
  \<^verbatim>\<open>Object.entries\<close> enumerates them. A \<^verbatim>\<open>Date\<close> holds its time value.
\<close>

datatype jsvalue =
    JNull
  | JUndefined
  | JBoolean bool
  | JString string
  | JBigInt int
  | JNumber number
  | JDate "int option"
  | JUint8Array "byte list"
  | JArray "jsvalue list"
  | JObject "(string \<times> jsvalue) list"

text \<open>
  The order of the own property keys of an object: array indices (the canonical
  decimal strings below \<open>2 ^ 32 - 1\<close>) first, in ascending order, then the other
  strings in the order in which they were created.
\<close>

definition is_array_index :: "string \<Rightarrow> bool" where
  "is_array_index k =
     (k \<noteq> [] \<and> list_all is_digit k \<and> (k = ''0'' \<or> hd k \<noteq> CHR ''0'') \<and>
      digits_value 10 k < 2 ^ 32 - 1)"

fun insert_key :: "string \<Rightarrow> 'a \<Rightarrow> (string \<times> 'a) list \<Rightarrow> (string \<times> 'a) list" where
  "insert_key k v [] = [(k, v)]"
| "insert_key k v ((k', v') # es) =
     (if is_array_index k \<and> (\<not> is_array_index k' \<or> digits_value 10 k < digits_value 10 k')
      then (k, v) # (k', v') # es
      else (k', v') # insert_key k v es)"

text \<open>
  \<^verbatim>\<open>CreateDataProperty\<close>: an existing property keeps its place and takes the new
  value, a new one is added.
\<close>

definition define_property :: "(string \<times> 'a) list \<Rightarrow> string \<times> 'a \<Rightarrow> (string \<times> 'a) list" where
  "define_property obj kv =
     (if fst kv \<in> fst ` set obj then map (\<lambda>e. if fst e = fst kv then kv else e) obj
      else insert_key (fst kv) (snd kv) obj)"

text \<open>\<^verbatim>\<open>Object.fromEntries(entries)\<close>\<close>

definition fromEntries :: "(string \<times> 'a) list \<Rightarrow> (string \<times> 'a) list" where
  "fromEntries entries = foldl define_property [] entries"

subsection \<open>The serializer (\<^verbatim>\<open>serializer.mjs\<close>)\<close>

text \<open>
  \<^verbatim>\<open>el(doc, tag, text)\<close>: setting \<^verbatim>\<open>textContent\<close> to the empty string leaves the element
  without a child.
\<close>

definition el :: "string \<Rightarrow> string \<Rightarrow> node" where
  "el tag txt = Element tag [] (if txt = [] then [] else [Text txt])"

text \<open>\<^verbatim>\<open>if (child) node.appendChild(child)\<close>\<close>

fun append_child :: "node option \<Rightarrow> node list \<Rightarrow> node list" where
  "append_child None cs = cs"
| "append_child (Some c) cs = c # cs"

text \<open>
  \<^verbatim>\<open>val(doc, value)\<close>, \<^verbatim>\<open>arr(doc, items)\<close> and \<^verbatim>\<open>dict(doc, obj)\<close>. The result
  \<open>None\<close> of \<open>ser_val\<close> is the \<^verbatim>\<open>null\<close> that \<^verbatim>\<open>val\<close> returns for \<^verbatim>\<open>null\<close> and
  \<^verbatim>\<open>undefined\<close>. \<open>arr_loop\<close> and \<open>dict_loop\<close> are the two \<^verbatim>\<open>for\<close> loops; they
  return the children appended to the new element. \<^verbatim>\<open>toISOString\<close> throws a
  \<^verbatim>\<open>RangeError\<close> on an invalid date, which ends the call.
\<close>

fun ser_val :: "host \<Rightarrow> jsvalue \<Rightarrow> error + node option"
  and arr :: "host \<Rightarrow> jsvalue list \<Rightarrow> error + node"
  and arr_loop :: "host \<Rightarrow> jsvalue list \<Rightarrow> error + node list"
  and ser_dict :: "host \<Rightarrow> (string \<times> jsvalue) list \<Rightarrow> error + node"
  and dict_loop :: "host \<Rightarrow> (string \<times> jsvalue) list \<Rightarrow> error + node list" where
  "ser_val h JNull = Inr None"
| "ser_val h JUndefined = Inr None"
| "ser_val h (JBoolean b) = Inr (Some (Element (if b then ''true'' else ''false'') [] []))"
| "ser_val h (JString s) = Inr (Some (el ''string'' s))"
| "ser_val h (JBigInt i) = Inr (Some (el ''integer'' (bigint_to_string i)))"
| "ser_val h (JNumber x) =
     Inr (Some (if is_integer x then el ''integer'' (number_to_string x)
                else el ''real'' (number_to_string x)))"
| "ser_val h (JDate d) =
     (case d of
        None \<Rightarrow> Inl RangeError
      | Some t \<Rightarrow> Inr (Some (el ''date'' (date_toISOString h t))))"
| "ser_val h (JUint8Array bytes) = Inr (Some (el ''data'' (b64 h bytes)))"
| "ser_val h (JArray items) =
     (case arr h items of Inl e \<Rightarrow> Inl e | Inr n \<Rightarrow> Inr (Some n))"
| "ser_val h (JObject entries) =
     (case ser_dict h entries of Inl e \<Rightarrow> Inl e | Inr n \<Rightarrow> Inr (Some n))"
| "arr h items =
     (case arr_loop h items of Inl e \<Rightarrow> Inl e | Inr cs \<Rightarrow> Inr (Element ''array'' [] cs))"
| "arr_loop h [] = Inr []"
| "arr_loop h (item # items) =
     (case ser_val h item of
        Inl e \<Rightarrow> Inl e
      | Inr child \<Rightarrow>
          (case arr_loop h items of
             Inl e \<Rightarrow> Inl e
           | Inr cs \<Rightarrow> Inr (append_child child cs)))"
| "ser_dict h entries =
     (case dict_loop h entries of Inl e \<Rightarrow> Inl e | Inr cs \<Rightarrow> Inr (Element ''dict'' [] cs))"
| "dict_loop h [] = Inr []"
| "dict_loop h (kv # entries) =
     (case ser_val h (snd kv) of
        Inl e \<Rightarrow> Inl e
      | Inr child \<Rightarrow>
          (case dict_loop h entries of
             Inl e \<Rightarrow> Inl e
           | Inr cs \<Rightarrow> Inr (el ''key'' (fst kv) # append_child child cs)))"

text \<open>
  \<^verbatim>\<open>serialize(value)\<close>, up to the document it hands to \<^verbatim>\<open>XMLSerializer\<close>: the
  \<^verbatim>\<open>plist\<close> root with its version and, when there is one, the element of the value.
\<close>

definition serialize :: "host \<Rightarrow> jsvalue \<Rightarrow> error + node" where
  "serialize h v =
     (case ser_val h v of
        Inl e \<Rightarrow> Inl e
      | Inr child \<Rightarrow> Inr (Element ''plist'' [(''version'', ''1.0'')] (append_child child [])))"

text \<open>The value with \<^verbatim>\<open>null\<close> in the place of every \<^verbatim>\<open>undefined\<close>.\<close>

fun undefined_as_null :: "jsvalue \<Rightarrow> jsvalue" where
  "undefined_as_null JUndefined = JNull"
| "undefined_as_null (JArray items) = JArray (map undefined_as_null items)"
| "undefined_as_null (JObject entries) =
     JObject (map (\<lambda>kv. (fst kv, undefined_as_null (snd kv))) entries)"
| "undefined_as_null v = v"

subsection \<open>The parser (\<^verbatim>\<open>parser.mjs\<close>)\<close>

text \<open>
  A call of the parser writes warnings to the console and then returns a value or
  throws: its result is the list of warnings and the error or the value.
\<close>

type_synonym 'a outcome = "string list \<times> (error + 'a)"

text \<open>
  \<^verbatim>\<open>Array.from(items, f)\<close>: \<open>f\<close> runs on the items in order; the first error ends
  the call.
\<close>

fun array_from :: "('a \<Rightarrow> 'b outcome) \<Rightarrow> 'a list \<Rightarrow> 'b list outcome" where
  "array_from f [] = ([], Inr [])"
| "array_from f (x # xs) =
     (case f x of
        (w, Inl e) \<Rightarrow> (w, Inl e)
      | (w, Inr y) \<Rightarrow>
          (case array_from f xs of
             (w', Inl e) \<Rightarrow> (w @ w', Inl e)
           | (w', Inr ys) \<Rightarrow> (w @ w', Inr (y # ys))))"

lemma array_from_cong [fundef_cong]:
  "xs = ys \<Longrightarrow> (\<And>x. x \<in> set ys \<Longrightarrow> f x = g x) \<Longrightarrow> array_from f xs = array_from g ys"
  by (induction ys arbitrary: xs) auto

text \<open>
  \<^verbatim>\<open>int(text)\<close>: the number when it is a safe integer, else \<^verbatim>\<open>BigInt(text)\<close>, which
  throws a \<^verbatim>\<open>SyntaxError\<close> on a text that is not an integer literal.
\<close>

definition parse_int :: "string \<Rightarrow> error + jsvalue" where
  "parse_int txt =
     (let n = string_to_number txt in
      if is_safe_integer n then Inr (JNumber n)
      else (case string_to_bigint txt of None \<Rightarrow> Inl SyntaxError | Some i \<Rightarrow> Inr (JBigInt i)))"

text \<open>
  The object \<^verbatim>\<open>handlers\<close> of \<^verbatim>\<open>val\<close> inherits from \<^verbatim>\<open>Object.prototype\<close>, so
  \<^verbatim>\<open>handlers[node.tagName]\<close> is a function for the names of its methods too, and
  \<^verbatim>\<open>val\<close> calls it with no receiver: \<^verbatim>\<open>constructor\<close> returns a new object,
  \<^verbatim>\<open>toString\<close> the string for \<^verbatim>\<open>undefined\<close>, \<^verbatim>\<open>isPrototypeOf\<close> returns
  \<^verbatim>\<open>false\<close>, and the others throw a \<^verbatim>\<open>TypeError\<close>.
\<close>

definition inherited_handler :: "string \<Rightarrow> (error + jsvalue) option" where
  "inherited_handler tag =
     (if tag = ''constructor'' then Some (Inr (JObject []))
      else if tag = ''toString'' then Some (Inr (JString ''[object Undefined]''))
      else if tag = ''isPrototypeOf'' then Some (Inr (JBoolean False))
      else if tag \<in> set [''toLocaleString'', ''valueOf'', ''hasOwnProperty'',
                ''propertyIsEnumerable'', ''__defineGetter__'', ''__defineSetter__'',
                ''__lookupGetter__'', ''__lookupSetter__'']
      then Some (Inl TypeError)
      else None)"

text \<open>The tag name in a message; a text node has none.\<close>

fun tag_of :: "node \<Rightarrow> string" where
  "tag_of (Element t a cs) = t"
| "tag_of (Text s) = ''undefined''"

lemma size_children_le: "size_list size (children n) \<le> size n"
proof (cases n)
  case (Element t a cs)
  have "size_list size (filter is_element cs) \<le> size_list size cs"
    by (induction cs) auto
  then show ?thesis using Element by simp
qed simp

lemma size_children_less: "children n \<noteq> [] \<Longrightarrow> size_list size (children n) < size n"
proof (cases n)
  case (Element t a cs)
  have "size_list size (filter is_element cs) \<le> size_list size cs"
    by (induction cs) auto
  then show ?thesis using Element by simp
qed simp

lemma size_member_less: "x \<in> set xs \<Longrightarrow> f x < size_list f xs"
  by (induction xs) auto

lemma nth_opt_mem: "nth_opt xs i = Some x \<Longrightarrow> x \<in> set xs"
  by (auto simp: nth_opt_def split: if_splits)

text \<open>
  \<^verbatim>\<open>val(node)\<close> and \<^verbatim>\<open>dict(node)\<close>. \<open>dict_entry h cs i\<close> is the function that
  \<^verbatim>\<open>dict\<close> maps over the indices \<open>0, \<dots>, length - 1\<close> of an array-like object of
  length \<^verbatim>\<open>children.length / 2\<close>, which \<^verbatim>\<open>Array.from\<close> truncates to an integer;
  it returns \<open>None\<close> for the \<^verbatim>\<open>null\<close> that \<^verbatim>\<open>filter(Boolean)\<close> removes.
\<close>

function parse_val :: "host \<Rightarrow> node \<Rightarrow> jsvalue outcome"
  and parse_dict :: "host \<Rightarrow> node \<Rightarrow> jsvalue outcome"
  and dict_entry :: "host \<Rightarrow> node list \<Rightarrow> nat \<Rightarrow> (string \<times> jsvalue) option outcome" where
  "parse_val h node =
     (let tag = tag_of node in
      if \<not> is_element node then
        ([''Unknown plist tag: <'' @ tag @ ''>''], Inr (JString (textContent node)))
      else if tag = ''dict'' then parse_dict h node
      else if tag = ''array'' then
        (case array_from (parse_val h) (children node) of
           (w, Inl e) \<Rightarrow> (w, Inl e)
         | (w, Inr vs) \<Rightarrow> (w, Inr (JArray vs)))
      else if tag = ''string'' then ([], Inr (JString (textContent node)))
      else if tag = ''integer'' then ([], parse_int (textContent node))
      else if tag = ''real'' then ([], Inr (JNumber (parseFloat (textContent node))))
      else if tag = ''true'' then ([], Inr (JBoolean True))
      else if tag = ''false'' then ([], Inr (JBoolean False))
      else if tag = ''date'' then ([], Inr (JDate (date_parse h (textContent node))))
      else if tag = ''data'' then
        ([], case parse_data h (textContent node) of
               Inl e \<Rightarrow> Inl e
             | Inr bytes \<Rightarrow> Inr (JUint8Array bytes))
      else
        (case inherited_handler tag of
           Some r \<Rightarrow> ([], r)
         | None \<Rightarrow> ([''Unknown plist tag: <'' @ tag @ ''>''], Inr (JString (textContent node)))))"
| "parse_dict h node =
     (case array_from (dict_entry h (children node)) [0 ..< length (children node) div 2] of
        (w, Inl e) \<Rightarrow> (w, Inl e)
      | (w, Inr entries) \<Rightarrow> (w, Inr (JObject (fromEntries (List.map_filter id entries)))))"
| "dict_entry h cs i =
     (case nth_opt cs (i * 2) of
        None \<Rightarrow> ([''Missing key in dictionary or malformed structure''], Inr None)
      | Some k \<Rightarrow>
          if tag_of k \<noteq> ''key'' then
            ([''Missing key in dictionary or malformed structure''], Inr None)
          else
            (case nth_opt cs (i * 2 + 1) of
               None \<Rightarrow> ([], Inr (Some (textContent k, JNull)))
             | Some v \<Rightarrow>
                 (case parse_val h v of
                    (w, Inl e) \<Rightarrow> (w, Inl e)
                  | (w, Inr x) \<Rightarrow> (w, Inr (Some (textContent k, x))))))"
  by pat_completeness auto
termination
proof (relation "measure (\<lambda>x. case x of
    Inl (h, n) \<Rightarrow> 3 * size n + 2
  | Inr (Inl (h, n)) \<Rightarrow> 3 * size n + 1
  | Inr (Inr (h, cs, i)) \<Rightarrow> 3 * size_list size cs + 3)", goal_cases)
  case 1
  show ?case by simp
next
  case (2 h node)
  show ?case by simp
next
  case (3 h node tag x)
  then have "size x < size_list size (children node)"
    by (simp add: size_member_less)
  then show ?case using size_children_le[of node] by simp
next
  case (4 h node i)
  then have "children node \<noteq> []" by auto
  then show ?case using size_children_less[of node] by simp
next
  case (5 h cs i k v)
  then have "size v < size_list size cs"
    by (simp add: size_member_less nth_opt_mem)
  then show ?case by simp
qed

declare parse_val.simps [simp del] parse_dict.simps [simp del] dict_entry.simps [simp del]

text \<open>
  \<^verbatim>\<open>parse(xml)\<close>, from the document that \<^verbatim>\<open>DOMParser\<close> returned for the text: a
  document with a \<^verbatim>\<open>parsererror\<close> element is what the browser returns for malformed
  XML.
\<close>

definition parse :: "host \<Rightarrow> node \<Rightarrow> jsvalue outcome" where
  "parse h doc =
     (case querySelector ''parsererror'' doc of
        Some err \<Rightarrow> ([], Inl (XMLError (''Error parsing XML: '' @ textContent err)))
      | None \<Rightarrow>
          (case querySelector ''plist'' doc of
             None \<Rightarrow> ([], Inl MissingPlist)
           | Some plist \<Rightarrow>
               (case children plist of
                  [] \<Rightarrow> ([], Inr JNull)
                | e # rest \<Rightarrow> parse_val h e)))"

text \<open>
  \<open>visits r n\<close>: reading the element \<open>r\<close>, the parser calls \<^verbatim>\<open>val\<close> on the element
  \<open>n\<close>, unless an error ends the call before: \<open>n\<close> is \<open>r\<close>, or is reached through
  the children of an \<^verbatim>\<open>array\<close> or through the value of a pair of a \<^verbatim>\<open>dict\<close> whose
  key slot is tagged \<^verbatim>\<open>key\<close>.
\<close>

inductive visits :: "node \<Rightarrow> node \<Rightarrow> bool" where
  self: "is_element n \<Longrightarrow> visits n n"
| array: "is_element n \<Longrightarrow> tag_of n = ''array'' \<Longrightarrow> c \<in> set (children n) \<Longrightarrow> visits c m
    \<Longrightarrow> visits n m"
| dict: "is_element n \<Longrightarrow> tag_of n = ''dict'' \<Longrightarrow> i < length (children n) div 2 \<Longrightarrow>
    tag_of (children n ! (i * 2)) = ''key'' \<Longrightarrow> visits (children n ! (i * 2 + 1)) m
    \<Longrightarrow> visits n m"

subsection \<open>Values that a write and a read give back\<close>





section \<open>Properties\<close>

subsection \<open>The binary data codec\<close>

lemma index_of_nth: "distinct xs \<Longrightarrow> n < length xs \<Longrightarrow> index_of (xs ! n) xs = Some n"
proof (induction xs arbitrary: n)
  case Nil then show ?case by simp
next
  case (Cons y ys)
  show ?case
  proof (cases n)
    case 0 then show ?thesis by simp
  next
    case (Suc m)
    with Cons.prems have "m < length ys" "distinct ys" "ys ! m \<noteq> y" by auto
    with Cons.IH[of m] Suc show ?thesis by simp
  qed
qed

lemma base64_alphabet_length: "length base64_alphabet = 64"
  by (simp add: base64_alphabet_def)

lemma base64_alphabet_distinct: "distinct base64_alphabet"
  by (simp add: base64_alphabet_def)

lemma base64_index_char: "base64_index (base64_char n) = Some (n mod 64)"
  unfolding base64_index_def base64_char_def
  by (rule index_of_nth) (simp_all add: base64_alphabet_distinct base64_alphabet_length)

lemma base64_char_in: "base64_char n \<in> set base64_alphabet"
  unfolding base64_char_def by (rule nth_mem) (simp add: base64_alphabet_length)

lemma base64_alphabet_plain:
  "\<forall>c \<in> set base64_alphabet. c \<noteq> CHR ''='' \<and> \<not> is_ascii_space c \<and> \<not> is_js_space c"
  by (simp add: base64_alphabet_def is_ascii_space_def is_js_space_def)

lemma base64_char_plain [simp]:
  "base64_char n \<noteq> CHR ''=''" "\<not> is_ascii_space (base64_char n)" "\<not> is_js_space (base64_char n)"
  using base64_alphabet_plain base64_char_in by blast+


lemma div_mult_add_small: "y < k \<Longrightarrow> (x * k + y) div k = (x::nat)"
  by simp

lemma mod_mult_add_small: "y < k \<Longrightarrow> (x * k + y) mod k = (y::nat)"
  by simp

lemma sextets_roundtrip:
  assumes "a < 256" "b < 256" "c < (256::nat)"
  shows "(a div 4 * 4 + ((a mod 4) * 16 + b div 16) div 16) mod 256 = a"
    and "((((a mod 4) * 16 + b div 16) mod 16) * 16 + ((b mod 16) * 4 + c div 64) div 4) mod 256 = b"
    and "((((b mod 16) * 4 + c div 64) mod 4) * 64 + c mod 64) mod 256 = c"
proof -
  have b16: "b div 16 < 16" and c64: "c div 64 < 4" using assms by simp_all
  have 1: "((a mod 4) * 16 + b div 16) div 16 = a mod 4"
    using b16 by (rule div_mult_add_small)
  have 2: "((a mod 4) * 16 + b div 16) mod 16 = b div 16"
    using b16 by (rule mod_mult_add_small)
  have 3: "((b mod 16) * 4 + c div 64) div 4 = b mod 16"
    using c64 by (rule div_mult_add_small)
  have 4: "((b mod 16) * 4 + c div 64) mod 4 = c div 64"
    using c64 by (rule mod_mult_add_small)
  show "(a div 4 * 4 + ((a mod 4) * 16 + b div 16) div 16) mod 256 = a"
    using assms by (simp add: 1)
  show "((((a mod 4) * 16 + b div 16) mod 16) * 16 + ((b mod 16) * 4 + c div 64) div 4) mod 256 = b"
    using assms by (simp add: 2 3)
  show "((((b mod 16) * 4 + c div 64) mod 4) * 64 + c mod 64) mod 256 = c"
    using assms by (simp add: 4)
qed

lemma base64_index_char_less: "n < 64 \<Longrightarrow> base64_index (base64_char n) = Some n"
  by (simp add: base64_index_char)

lemma decode_chunk_encode3:
  assumes "a < 256" "b < 256" "c < (256::nat)"
  shows "decode_chunk [a div 4, (a mod 4) * 16 + b div 16, (b mod 16) * 4 + c div 64, c mod 64]
           = [a, b, c]"
  using sextets_roundtrip[OF assms] by simp

lemma decode_chunk_encode2:
  assumes "a < 256" "b < (256::nat)"
  shows "decode_chunk [a div 4, (a mod 4) * 16 + b div 16, (b mod 16) * 4] = [a, b]"
  using sextets_roundtrip(1,2)[OF assms, of 0] by simp

lemma decode_chunk_encode1:
  assumes "a < (256::nat)"
  shows "decode_chunk [a div 4, (a mod 4) * 16] = [a]"
  using sextets_roundtrip(1)[OF assms, of 0 0] by simp

lemma sextet_bounds:
  assumes "a < 256" "b < 256" "c < (256::nat)"
  shows "a div 4 < 64" "(a mod 4) * 16 + b div 16 < 64" "(b mod 16) * 4 + c div 64 < 64"
    "c mod 64 < 64" "(a mod 4) * 16 < 64" "(b mod 16) * 4 < 64"
  using assms by simp_all

lemma not_space_eq [simp]: "\<not> is_ascii_space (CHR ''='')" "\<not> is_js_space (CHR ''='')"
  by (simp_all add: is_ascii_space_def is_js_space_def)

lemma fromBase64_from_encode:
  "\<forall>n \<in> set ns. n < 256 \<Longrightarrow> fromBase64_from [] (base64_encode ns) = Some ns"
proof (induction ns rule: base64_encode.induct)
  case 1
  then show ?case by simp
next
  case (2 a)
  then have a: "a < 256" by simp
  show ?case
    using sextet_bounds[OF a a a]
    by (simp add: base64_index_char_less decode_chunk_encode1[OF a] del: decode_chunk.simps)
next
  case (3 a b)
  then have a: "a < 256" and b: "b < 256" by simp_all
  show ?case
    using sextet_bounds[OF a b b]
    by (simp add: base64_index_char_less decode_chunk_encode2[OF a b] del: decode_chunk.simps)
next
  case (4 a b c rest)
  then have a: "a < 256" and b: "b < 256" and c: "c < 256"
    and r: "fromBase64_from [] (base64_encode rest) = Some rest" by simp_all
  show ?case
    using sextet_bounds[OF a b c]
    by (simp add: base64_index_char_less decode_chunk_encode3[OF a b c] r del: decode_chunk.simps)
qed

lemma strip_spaces_encode: "strip_spaces (base64_encode ns) = base64_encode ns"
  by (induction ns rule: base64_encode.induct) (simp_all add: strip_spaces_def)

lemma filter_ascii_encode:
  "filter (\<lambda>c. \<not> is_ascii_space c) (base64_encode ns) = base64_encode ns"
  by (induction ns rule: base64_encode.induct) simp_all

lemma length_encode_mod4: "length (base64_encode ns) mod 4 = 0"
  by (induction ns rule: base64_encode.induct) simp_all

text \<open>The encoding without its padding.\<close>

fun encode_core :: "nat list \<Rightarrow> string" where
  "encode_core [] = []"
| "encode_core [a] = [base64_char (a div 4), base64_char ((a mod 4) * 16)]"
| "encode_core [a, b] =
     [base64_char (a div 4), base64_char ((a mod 4) * 16 + b div 16),
      base64_char ((b mod 16) * 4)]"
| "encode_core (a # b # c # rest) =
     [base64_char (a div 4), base64_char ((a mod 4) * 16 + b div 16),
      base64_char ((b mod 16) * 4 + c div 64), base64_char (c mod 64)] @ encode_core rest"

lemma strip_padding_group:
  assumes "length xs mod 4 = 0" "xs \<noteq> []"
  shows "strip_padding (a # b # c # d # xs) = a # b # c # d # strip_padding xs"
proof -
  have len: "length (a # b # c # d # xs) mod 4 = 0" using assms(1) by simp
  obtain ys y where xs: "xs = ys @ [y]" using assms(2) by (cases xs rule: rev_cases) auto
  have "ys \<noteq> []" using assms(1) xs by auto
  then obtain zs z where ys: "ys = zs @ [z]" by (cases ys rule: rev_cases) auto
  have l1: "last (a # b # c # d # xs) = y" "last xs = y" by (simp_all add: xs)
  have b1: "butlast (a # b # c # d # xs) = a # b # c # d # zs @ [z]" "butlast xs = zs @ [z]"
    by (simp_all add: xs ys butlast_append)
  have b2: "butlast (a # b # c # d # zs @ [z]) = a # b # c # d # zs" "butlast (zs @ [z]) = zs"
    by (simp_all add: butlast_append)
  show ?thesis
    unfolding strip_padding_def len assms(1) l1 b1 using assms(2)
    by (simp add: butlast_append)
qed

lemma strip_padding_encode: "strip_padding (base64_encode ns) = encode_core ns"
proof (induction ns rule: base64_encode.induct)
  case (4 a b c rest)
  show ?case
  proof (cases "base64_encode rest = []")
    case True
    then have "rest = []" by (cases rest rule: base64_encode.cases) simp_all
    then show ?thesis by (simp add: strip_padding_def)
  next
    case False
    then show ?thesis using 4 by (simp add: strip_padding_group length_encode_mod4)
  qed
qed (simp_all add: strip_padding_def)


lemma length_encode_core: "length (encode_core ns) mod 4 \<noteq> 1"
  by (induction ns rule: encode_core.induct) simp_all

lemma encode_core_alphabet: "c \<in> set (encode_core ns) \<Longrightarrow> base64_index c \<noteq> None"
  by (induction ns rule: encode_core.induct) (auto simp: base64_index_char)

lemma decode_sextets_core:
  "\<forall>n \<in> set ns. n < 256 \<Longrightarrow>
     decode_sextets (map (\<lambda>c. the (base64_index c)) (encode_core ns)) = ns"
proof (induction ns rule: encode_core.induct)
  case 1
  then show ?case by simp
next
  case (2 a)
  then have a: "a < 256" by simp
  show ?case
    using sextet_bounds[OF a a a]
    by (simp add: base64_index_char_less decode_chunk_encode1[OF a] del: decode_chunk.simps)
next
  case (3 a b)
  then have a: "a < 256" and b: "b < 256" by simp_all
  show ?case
    using sextet_bounds[OF a b b]
    by (simp add: base64_index_char_less decode_chunk_encode2[OF a b] del: decode_chunk.simps)
next
  case (4 a b c rest)
  then have a: "a < 256" and b: "b < 256" and c: "c < 256"
    and r: "decode_sextets (map (\<lambda>c. the (base64_index c)) (encode_core rest)) = rest"
    by simp_all
  show ?case
    using sextet_bounds[OF a b c]
    by (simp add: base64_index_char_less decode_chunk_encode3[OF a b c] r del: decode_chunk.simps)
qed

lemma atob_encode:
  assumes "\<forall>n \<in> set ns. n < 256"
  shows "atob (base64_encode ns) = Some (map char_of ns)"
  unfolding atob_def filter_ascii_encode strip_padding_encode Let_def
  using length_encode_core[of ns] encode_core_alphabet[of _ ns] decode_sextets_core[OF assms]
  by auto

lemma unat_byte_less256: "unat (b :: byte) < 256"
  using unsigned_less[of b] by simp

lemma unat_byte_less: "\<forall>n \<in> set (map unat (bytes :: byte list)). n < 256"
  by (simp add: unat_byte_less256)

lemma char_of_unat_byte: "unat (b :: byte) mod 256 = unat b"
  by (simp add: unat_byte_less256)

lemma b64_eq: "b64 h bytes = base64_encode (map unat bytes)"
  by (simp add: b64_def toBase64_def btoa_def comp_def char_of_unat_byte)

lemma parse_data_encode:
  "parse_data h (base64_encode (map unat bytes)) = Inr bytes"
proof -
  have chars: "map (\<lambda>c. of_nat (of_char c)) (map char_of (map unat bytes)) = bytes"
    by (simp add: comp_def char_of_unat_byte map_idI)
  have "strip_spaces (base64_encode (map unat bytes)) = base64_encode (map unat bytes)"
    by (rule strip_spaces_encode)
  moreover have "fromBase64 (base64_encode (map unat bytes)) = Some bytes"
    by (simp add: fromBase64_def fromBase64_from_encode[OF unat_byte_less] comp_def map_idI)
  moreover have "atob (base64_encode (map unat bytes)) = Some (map char_of (map unat bytes))"
    by (rule atob_encode[OF unat_byte_less])
  ultimately show ?thesis
    unfolding parse_data_def Let_def by (simp only: chars option.case if_cancel)
qed

lemma parse_data_strip: "parse_data h t = parse_data h (strip_spaces t)"
  by (simp add: parse_data_def strip_spaces_def)

text \<open>
  C5. For every byte sequence, the empty one included, \<^verbatim>\<open>data\<close> returns the bytes that
  \<^verbatim>\<open>b64\<close> encoded, whichever base64 functions the host has; and it returns them from
  every text that is the encoding with white space (any characters of the class
  \<^verbatim>\<open>\s\<close>, line breaks included) inserted anywhere.
\<close>

theorem data_b64_roundtrip:
  "parse_data h (b64 h bytes) = Inr bytes \<and>
   (\<forall>t. strip_spaces t = b64 h bytes \<longrightarrow> parse_data h t = Inr bytes)"
proof (intro conjI allI impI)
  show "parse_data h (b64 h bytes) = Inr bytes"
    by (simp add: b64_eq parse_data_encode)
next
  fix t assume "strip_spaces t = b64 h bytes"
  then show "parse_data h t = Inr bytes"
    using parse_data_strip[of h t] by (simp add: b64_eq parse_data_encode)
qed

theorem data_b64_roundtrip_witness:
  "b64 \<lparr>has_fromBase64 = False, has_toBase64 = False, date_parse = (\<lambda>s. None),
        date_toISOString = (\<lambda>t. [])\<rparr> [0, 1, 2, 255] = ''AAEC/w==''
   \<and> strip_spaces ([CHR 0x20] @ ''AAE'' @ [CHR 0x0A, CHR 0x09] @ ''C/w=='' @ [CHR 0x0D, CHR 0x0A])
       = ''AAEC/w==''
   \<and> parse_data \<lparr>has_fromBase64 = False, has_toBase64 = False, date_parse = (\<lambda>s. None),
        date_toISOString = (\<lambda>t. [])\<rparr>
       ([CHR 0x20] @ ''AAE'' @ [CHR 0x0A, CHR 0x09] @ ''C/w=='' @ [CHR 0x0D, CHR 0x0A])
       = Inr [0, 1, 2, 255]"
proof -
  let ?h = "\<lparr>has_fromBase64 = False, has_toBase64 = False, date_parse = (\<lambda>s. None),
        date_toISOString = (\<lambda>t. [])\<rparr>"
  let ?t = "[CHR 0x20] @ ''AAE'' @ [CHR 0x0A, CHR 0x09] @ ''C/w=='' @ [CHR 0x0D, CHR 0x0A]"
  have enc: "b64 ?h [0, 1, 2, 255] = ''AAEC/w==''"
    by (simp add: b64_def btoa_def base64_char_def base64_alphabet_def)
  have strip: "strip_spaces ?t = ''AAEC/w==''"
    by (simp add: strip_spaces_def is_js_space_def)
  from data_b64_roundtrip[of ?h "[0, 1, 2, 255]"] enc strip
  have "parse_data ?h ?t = Inr [0, 1, 2, 255]" by simp
  with enc strip show ?thesis by simp
qed

subsection \<open>Numbers and their texts\<close>

lemma quotients_bounds:
  assumes "2 \<le> b" "1 \<le> q"
  shows "real b ^ quotients b q \<le> q \<and> q < real b ^ Suc (quotients b q)"
  using assms
proof (induction b q rule: quotients.induct)
  case (1 b q)
  have b0: "0 < real b" using 1(2) by simp
  show ?case
  proof (cases "q < real b")
    case True
    then show ?thesis using 1(3) by (simp add: quotients.simps)
  next
    case False
    then have ge: "real b \<le> q" by simp
    then have "1 \<le> q / real b" using b0 by simp
    with 1 False have IH: "real b ^ quotients b (q / real b) \<le> q / real b"
      "q / real b < real b ^ Suc (quotients b (q / real b))" by auto
    have eq: "quotients b q = Suc (quotients b (q / real b))"
      using False 1(2) by (subst quotients.simps) simp
    from IH(1) have "real b ^ quotients b (q / real b) * real b \<le> q"
      using b0 by (simp add: pos_le_divide_eq)
    moreover from IH(2) have "q < real b ^ Suc (quotients b (q / real b)) * real b"
      using b0 by (simp add: pos_divide_less_eq)
    ultimately show ?thesis unfolding eq by (simp add: mult.commute)
  qed
qed

lemma floor_log_ge1:
  assumes "2 \<le> b" "1 \<le> q"
  shows "real b ^ nat (floor_log b q) \<le> q" "q < real b ^ Suc (nat (floor_log b q))" "0 \<le> floor_log b q"
  using quotients_bounds[OF assms] assms(2) by (simp_all add: floor_log_def)



lemma round_half_even_int [simp]: "round_half_even (of_int m) = m"
  by (simp add: round_half_even_def)

lemma round_half_even_zero [simp]: "round_half_even 0 = 0"
  using round_half_even_int[of 0] by simp

lemma round_half_even_ge: "\<lfloor>r\<rfloor> \<le> round_half_even r"
  by (simp add: round_half_even_def Let_def)

lemma to_double_zero [simp]: "to_double 0 = Finite 0"
  by (simp add: to_double_def floor_log_def products.simps)


lemma pow2_less_exp: "(2::real) ^ a < 2 ^ b \<Longrightarrow> a < b"
  by (rule power_less_imp_less_exp[of "2::real"]) simp_all


lemma to_double_large:
  assumes "2 ^ 53 \<le> q"
  shows "to_double q = PosInf \<or> (\<exists>v. to_double q = Finite v \<and> 2 ^ 53 \<le> v)"
proof -
  have "(1::real) \<le> 2 ^ 53" by (rule one_le_power) simp
  then have q1: "1 \<le> q" using assms by linarith
  define e where "e = nat (floor_log 2 q)"
  have fl: "floor_log 2 q = int e" and lo: "2 ^ e \<le> q" and hi: "q < 2 ^ Suc e"
    using floor_log_ge1[of 2 q] q1 by (simp_all add: e_def)
  have "(2::real) ^ 53 < 2 ^ Suc e" using assms hi by (rule le_less_trans)
  then have "53 < Suc e" by (rule pow2_less_exp)
  then have e53: "53 \<le> e" by simp
  have p: "max (floor_log 2 q - 52) (- 1074) = int (e - 52)"
    using e53 by (simp add: fl)
  have pw: "(2::real) powi int (e - 52) = 2 ^ (e - 52)" by simp
  have "52 + (e - 52) = e" using e53 by simp
  then have split: "(2::real) ^ e = 2 ^ 52 * 2 ^ (e - 52)"
    by (metis power_add)
  have "(2::real) ^ 52 * 2 ^ (e - 52) \<le> q" using lo unfolding split .
  then have "(2::real) ^ 52 \<le> q / 2 ^ (e - 52)"
    by (simp only: pos_le_divide_eq zero_less_power zero_less_numeral)
  then have "of_int (2 ^ 52) \<le> q / 2 ^ (e - 52)" by simp
  then have "2 ^ 52 \<le> \<lfloor>q / 2 ^ (e - 52)\<rfloor>" by (simp only: le_floor_iff)
  then have r: "2 ^ 52 \<le> round_half_even (q / 2 ^ (e - 52))"
    using round_half_even_ge[of "q / 2 ^ (e - 52)"] by (rule order_trans)
  have r': "(2::real) ^ 52 \<le> of_int (round_half_even (q / 2 ^ (e - 52)))"
    using r by (metis of_int_le_iff of_int_numeral of_int_power)
  have "(2::real) ^ 53 \<le> 2 ^ e" using e53 by (intro power_increasing) simp_all
  also have "\<dots> \<le> of_int (round_half_even (q / 2 ^ (e - 52))) * 2 ^ (e - 52)"
    unfolding split using r' by (intro mult_right_mono) simp_all
  finally have big: "2 ^ 53 \<le> of_int (round_half_even (q / 2 ^ (e - 52))) * (2::real) ^ (e - 52)" .
  define v where "v = of_int (round_half_even (q / 2 ^ (e - 52))) * (2::real) ^ (e - 52)"
  have td: "to_double q = (if 2 ^ 1024 \<le> v then PosInf else Finite v)"
    unfolding to_double_def p pw Let_def v_def ..
  show ?thesis
  proof (cases "2 ^ 1024 \<le> v")
    case True
    then show ?thesis unfolding td by (simp only: if_True simp_thms)
  next
    case False
    then have "to_double q = Finite v" unfolding td by (simp only: if_False)
    moreover have "2 ^ 53 \<le> v" using big unfolding v_def .
    ultimately show ?thesis by blast
  qed
qed

lemma digit_char_facts:
  "is_digit (digit_char n)" "digit_value (digit_char n) = n mod 10"
proof -
  have m: "n mod 10 < 10" by simp
  show "is_digit (digit_char n)"
    unfolding is_digit_def digit_char_def by (rule nth_mem) simp
  have "''0123456789abcdef'' ! (n mod 10) = (''0123456789'' @ ''abcdef'') ! (n mod 10)" by simp
  also have "\<dots> = ''0123456789'' ! (n mod 10)" by (subst nth_append) simp
  finally have "index_of (digit_char n) ''0123456789abcdef'' = Some (n mod 10)"
    unfolding digit_char_def using index_of_nth[of "''0123456789abcdef''" "n mod 10"] by simp
  then show "digit_value (digit_char n) = n mod 10" by (simp add: digit_value_def)
qed

lemma is_digit_not_space: "is_digit c \<Longrightarrow> \<not> is_js_space c"
  by (auto simp: is_digit_def is_js_space_def)

lemma is_digit_not_sign: "is_digit c \<Longrightarrow> c \<noteq> CHR ''-'' \<and> c \<noteq> CHR ''+'' \<and> c \<noteq> CHR ''I'' \<and> c \<noteq> CHR ''.''"
  by (auto simp: is_digit_def)

lemma show_nat_digits: "list_all is_digit (show_nat n)"
  by (induction n rule: show_nat.induct) (subst show_nat.simps, simp add: digit_char_facts)

lemma show_nat_nonempty: "show_nat n \<noteq> []"
  by (subst show_nat.simps) simp

lemma digits_value_snoc: "digits_value b (ds @ [c]) = digits_value b ds * b + digit_value c"
  by (simp add: digits_value_def)

lemma digits_value_show_nat: "digits_value 10 (show_nat n) = n"
proof (induction n rule: show_nat.induct)
  case (1 n)
  show ?case
  proof (cases "n < 10")
    case True
    then show ?thesis
      by (subst show_nat.simps) (simp add: digits_value_def digit_char_facts)
  next
    case False
    with 1 have "digits_value 10 (show_nat (n div 10)) = n div 10" by simp
    with False show ?thesis
      by (subst show_nat.simps) (simp add: digits_value_snoc digit_char_facts)
  qed
qed

lemma trim_plain:
  assumes "s \<noteq> []" "\<not> is_js_space (hd s)" "\<not> is_js_space (last s)"
  shows "trim s = s"
proof -
  have 1: "dropWhile is_js_space s = s" using assms(2) by (simp add: dropWhile_eq_self_iff)
  have "hd (rev s) = last s" using assms(1) by (simp add: hd_rev)
  then have 2: "dropWhile is_js_space (rev s) = rev s"
    using assms(3) by (simp add: dropWhile_eq_self_iff)
  show ?thesis by (simp add: trim_def 1 2)
qed

lemma parse_decimal_digits:
  assumes "ds \<noteq> []" "list_all is_digit ds"
  shows "parse_decimal ds = Some (to_double (real (digits_value 10 ds)), [])"
proof -
  obtain c cs where ds: "ds = c # cs" using assms(1) by (cases ds) auto
  then have c: "is_digit c" using assms(2) by simp
  have sign: "split_sign ds = (False, ds)"
    using is_digit_not_sign[OF c] by (simp add: split_sign_def ds)
  have inf: "take 8 ds \<noteq> ''Infinity''"
    using is_digit_not_sign[OF c] by (auto simp: ds)
  have tw: "takeWhile is_digit ds = ds" "dropWhile is_digit ds = []"
    using assms(2) by (simp_all add: list_all_iff)
  show ?thesis
    by (simp add: parse_decimal_def sign parse_unsigned_decimal_def inf tw Let_def
        parse_exponent_def assms(1))
qed

lemma parse_decimal_minus_digits:
  assumes "ds \<noteq> []" "list_all is_digit ds"
  shows "parse_decimal (CHR ''-'' # ds) = Some (negate (to_double (real (digits_value 10 ds))), [])"
proof -
  obtain c cs where ds: "ds = c # cs" using assms(1) by (cases ds) auto
  then have c: "is_digit c" using assms(2) by simp
  have sign: "split_sign (CHR ''-'' # ds) = (True, ds)"
    by (simp add: split_sign_def)
  have inf: "take 8 ds \<noteq> ''Infinity''"
    using is_digit_not_sign[OF c] by (auto simp: ds)
  have tw: "takeWhile is_digit ds = ds" "dropWhile is_digit ds = []"
    using assms(2) by (simp_all add: list_all_iff)
  show ?thesis
    by (simp add: parse_decimal_def sign parse_unsigned_decimal_def inf tw Let_def
        parse_exponent_def assms(1))
qed

lemma parse_decimal_plus_digits:
  assumes "ds \<noteq> []" "list_all is_digit ds"
  shows "parse_decimal (CHR ''+'' # ds) = Some (to_double (real (digits_value 10 ds)), [])"
proof -
  obtain c cs where ds: "ds = c # cs" using assms(1) by (cases ds) auto
  then have c: "is_digit c" using assms(2) by simp
  have sign: "split_sign (CHR ''+'' # ds) = (False, ds)"
    by (simp add: split_sign_def)
  have inf: "take 8 ds \<noteq> ''Infinity''"
    using is_digit_not_sign[OF c] by (auto simp: ds)
  have tw: "takeWhile is_digit ds = ds" "dropWhile is_digit ds = []"
    using assms(2) by (simp_all add: list_all_iff)
  show ?thesis
    by (simp add: parse_decimal_def sign parse_unsigned_decimal_def inf tw Let_def
        parse_exponent_def assms(1))
qed

lemma digits_ends:
  assumes "ds \<noteq> []" "list_all is_digit ds"
  shows "is_digit (hd ds)" "is_digit (last ds)"
  using assms by (simp_all add: list_all_iff)

lemma trim_digits:
  assumes "ds \<noteq> []" "list_all is_digit ds"
  shows "trim ds = ds" "trim (CHR ''-'' # ds) = CHR ''-'' # ds"
proof -
  note e = digits_ends[OF assms]
  show "trim ds = ds"
    using assms(1) e by (intro trim_plain) (simp_all add: is_digit_not_space)
  have "\<not> is_js_space (CHR ''-'')" by (simp add: is_js_space_def)
  then show "trim (CHR ''-'' # ds) = CHR ''-'' # ds"
    using assms(1) e by (intro trim_plain) (simp_all add: is_digit_not_space)
qed

lemma string_to_number_digits:
  assumes "ds \<noteq> []" "list_all is_digit ds"
  shows "string_to_number ds = to_double (real (digits_value 10 ds))"
    and "string_to_number (CHR ''-'' # ds) = negate (to_double (real (digits_value 10 ds)))"
  unfolding string_to_number_def trim_digits[OF assms] Let_def
  using assms(1) by (simp_all add: parse_decimal_digits[OF assms] parse_decimal_minus_digits[OF assms])

lemma string_to_bigint_digits:
  assumes "ds \<noteq> []" "list_all is_digit ds"
  shows "string_to_bigint ds = Some (int (digits_value 10 ds))"
    and "string_to_bigint (CHR ''-'' # ds) = Some (- int (digits_value 10 ds))"
proof -
  have "split_sign ds = (False, ds)"
    using is_digit_not_sign[OF digits_ends(1)[OF assms]] assms(1)
    by (cases ds) (simp_all add: split_sign_def)
  then show "string_to_bigint ds = Some (int (digits_value 10 ds))"
    unfolding string_to_bigint_def trim_digits[OF assms] Let_def using assms by simp
  have "split_sign (CHR ''-'' # ds) = (True, ds)" by (simp add: split_sign_def)
  then show "string_to_bigint (CHR ''-'' # ds) = Some (- int (digits_value 10 ds))"
    unfolding string_to_bigint_def trim_digits[OF assms] Let_def using assms by simp
qed

lemma bigint_to_string_neg: "i < 0 \<Longrightarrow> bigint_to_string i = CHR ''-'' # show_nat (nat (- i))"
  by (simp add: bigint_to_string_def)

lemma bigint_to_string_pos: "\<not> i < 0 \<Longrightarrow> bigint_to_string i = show_nat (nat i)"
  by (simp add: bigint_to_string_def)

lemma string_to_number_bigint:
  "string_to_number (bigint_to_string i) =
     (if i < 0 then negate (to_double (real (nat (- i)))) else to_double (real (nat i)))"
proof (cases "i < 0")
  case True
  show ?thesis
    unfolding bigint_to_string_neg[OF True]
      string_to_number_digits(2)[OF show_nat_nonempty show_nat_digits] digits_value_show_nat
    using True by simp
next
  case False
  show ?thesis
    unfolding bigint_to_string_pos[OF False]
      string_to_number_digits(1)[OF show_nat_nonempty show_nat_digits] digits_value_show_nat
    using False by simp
qed

lemma string_to_bigint_roundtrip: "string_to_bigint (bigint_to_string i) = Some i"
proof (cases "i < 0")
  case True
  show ?thesis
    unfolding bigint_to_string_neg[OF True]
      string_to_bigint_digits(2)[OF show_nat_nonempty show_nat_digits] digits_value_show_nat
    using True by simp
next
  case False
  show ?thesis
    unfolding bigint_to_string_pos[OF False]
      string_to_bigint_digits(1)[OF show_nat_nonempty show_nat_digits] digits_value_show_nat
    using False by simp
qed

lemma not_safe_large:
  assumes "2 ^ 53 \<le> q"
  shows "\<not> is_safe_integer (to_double q)" "\<not> is_safe_integer (negate (to_double q))"
proof -
  have less: "(2::real) ^ 53 - 1 < 2 ^ 53" by simp
  from to_double_large[OF assms] show "\<not> is_safe_integer (to_double q)"
  proof
    assume "to_double q = PosInf" then show ?thesis by simp
  next
    assume "\<exists>v. to_double q = Finite v \<and> 2 ^ 53 \<le> v"
    then obtain v where v: "to_double q = Finite v" "2 ^ 53 \<le> v" by blast
    then have "\<not> \<bar>v\<bar> \<le> 2 ^ 53 - 1" using less by linarith
    then show ?thesis unfolding v(1) is_safe_integer.simps by (rule contrapos_nn) (rule conjunct2)
  qed
  from to_double_large[OF assms] show "\<not> is_safe_integer (negate (to_double q))"
  proof
    assume "to_double q = PosInf" then show ?thesis by simp
  next
    assume "\<exists>v. to_double q = Finite v \<and> 2 ^ 53 \<le> v"
    then obtain v where v: "to_double q = Finite v" "2 ^ 53 \<le> v" by blast
    have "(0::real) < 2 ^ 53" by (rule zero_less_power) simp
    then have v0: "v \<noteq> 0" using v(2) by linarith
    have "\<not> \<bar>- v\<bar> \<le> 2 ^ 53 - 1" using less v(2) by linarith
    then show ?thesis unfolding v(1) using v0
      by (simp only: negate.simps if_False is_safe_integer.simps simp_thms)
  qed
qed

lemma parse_int_big:
  assumes "2 ^ 53 - 1 < \<bar>i\<bar>"
  shows "parse_int (bigint_to_string i) = Inr (JBigInt i)"
proof -
  have "(2::int) ^ 53 \<le> \<bar>i\<bar>" using assms by linarith
  then have "real_of_int (2 ^ 53) \<le> real_of_int \<bar>i\<bar>" by (simp only: of_int_le_iff)
  then have big: "2 ^ 53 \<le> real (nat \<bar>i\<bar>)" by simp
  have "\<not> is_safe_integer (string_to_number (bigint_to_string i))"
  proof (cases "i < 0")
    case True
    then have eq: "string_to_number (bigint_to_string i) = negate (to_double (real (nat \<bar>i\<bar>)))"
      unfolding string_to_number_bigint by simp
    show ?thesis unfolding eq by (rule not_safe_large(2)[OF big])
  next
    case False
    then have eq: "string_to_number (bigint_to_string i) = to_double (real (nat \<bar>i\<bar>))"
      unfolding string_to_number_bigint by simp
    show ?thesis unfolding eq by (rule not_safe_large(1)[OF big])
  qed
  then show ?thesis
    by (simp add: parse_int_def string_to_bigint_roundtrip Let_def)
qed

















subsection \<open>Elements read and written\<close>

lemma el_simps [simp]:
  "textContent (el tag s) = s" "tag_of (el tag s) = tag" "is_element (el tag s)"
  "children (el tag s) = []" "tagName (el tag s) = tag"
  by (simp_all add: el_def)

lemma querySelector_el [simp]:
  "querySelector t (el tag s) = (if tag = t then Some (el tag s) else None)"
  by (simp add: el_def)

lemma parse_val_integer:
  "parse_val h (Element ''integer'' a cs) = ([], parse_int (concat (map textContent cs)))"
  by (simp add: parse_val.simps)

lemma parse_val_real:
  "parse_val h (Element ''real'' a cs) = ([], Inr (JNumber (parseFloat (concat (map textContent cs)))))"
  by (simp add: parse_val.simps)

lemma parse_val_el_integer: "parse_val h (el ''integer'' s) = ([], parse_int s)"
  using parse_val_integer[of h "[]" "if s = [] then [] else [Text s]"] by (simp add: el_def)

lemma parse_plist_root:
  assumes "is_element n" "querySelector ''parsererror'' n = None"
  shows "parse h (Element ''plist'' a [n]) = parse_val h n"
  using assms by (simp add: parse_def)

text \<open>
  C2. A \<^verbatim>\<open>bigint\<close> beyond the safe integers is written as an \<^verbatim>\<open>integer\<close> element whose
  text is its decimal digits with its sign, and that element is read back as the same
  \<^verbatim>\<open>bigint\<close>: the document that \<^verbatim>\<open>serialize\<close> builds parses to it, with no warning.
\<close>

theorem bigint_roundtrip:
  assumes "2 ^ 53 - 1 < \<bar>n\<bar>"
  shows "ser_val h (JBigInt n) = Inr (Some (el ''integer'' (bigint_to_string n))) \<and>
         parse_val h (el ''integer'' (bigint_to_string n)) = ([], Inr (JBigInt n)) \<and>
         (\<exists>doc. serialize h (JBigInt n) = Inr doc \<and> parse h doc = ([], Inr (JBigInt n)))"
proof -
  have pv: "parse_val h (el ''integer'' (bigint_to_string n)) = ([], Inr (JBigInt n))"
    by (simp add: parse_val_el_integer parse_int_big[OF assms])
  have "parse h (Element ''plist'' [(''version'', ''1.0'')] [el ''integer'' (bigint_to_string n)])
        = ([], Inr (JBigInt n))"
    by (simp add: parse_plist_root pv)
  then show ?thesis by (simp add: pv serialize_def)
qed

theorem bigint_roundtrip_witness:
  "2 ^ 53 - 1 < \<bar>9223372036854775807 :: int\<bar> \<and>
   bigint_to_string 9223372036854775807 = ''9223372036854775807'' \<and>
   parse_val \<lparr>has_fromBase64 = True, has_toBase64 = True, date_parse = (\<lambda>s. None),
       date_toISOString = (\<lambda>t. [])\<rparr>
     (el ''integer'' ''9223372036854775807'') = ([], Inr (JBigInt 9223372036854775807))"
proof -
  have a: "2 ^ 53 - 1 < \<bar>9223372036854775807 :: int\<bar>" by simp
  have s: "bigint_to_string 9223372036854775807 = ''9223372036854775807''"
    by (simp add: bigint_to_string_def show_nat.simps digit_char_def)
  from bigint_roundtrip[OF a] a s show ?thesis by simp
qed

lemma trim_blank: "list_all is_js_space s \<Longrightarrow> trim s = []"
proof -
  assume "list_all is_js_space s"
  then have d: "dropWhile is_js_space s = []"
    unfolding dropWhile_eq_Nil_conv list_all_iff .
  show ?thesis unfolding trim_def d by simp
qed

text \<open>
  C9. An \<^verbatim>\<open>integer\<close> element whose text is empty or only white space is read as the
  number 0, not as an error: \<^verbatim>\<open>Number\<close> of such a text is 0, a safe integer.
\<close>

theorem integer_blank_is_zero:
  assumes "list_all is_js_space (concat (map textContent cs))"
  shows "string_to_number (concat (map textContent cs)) = Finite 0 \<and>
         is_safe_integer (Finite 0) \<and>
         parse_val h (Element ''integer'' a cs) = ([], Inr (JNumber (Finite 0)))"
proof -
  have n: "string_to_number (concat (map textContent cs)) = Finite 0"
    by (simp add: string_to_number_def trim_blank[OF assms])
  then show ?thesis by (simp add: parse_val_integer parse_int_def)
qed

theorem integer_blank_is_zero_witness:
  "list_all is_js_space (concat (map textContent [Text [CHR 0x20, CHR 0x0A], Text [CHR 0x09]])) \<and>
   parse_val \<lparr>has_fromBase64 = True, has_toBase64 = True, date_parse = (\<lambda>s. None),
       date_toISOString = (\<lambda>t. [])\<rparr>
     (Element ''integer'' [] [Text [CHR 0x20, CHR 0x0A], Text [CHR 0x09]])
     = ([], Inr (JNumber (Finite 0))) \<and>
   parse_val \<lparr>has_fromBase64 = True, has_toBase64 = True, date_parse = (\<lambda>s. None),
       date_toISOString = (\<lambda>t. [])\<rparr>
     (Element ''integer'' [] []) = ([], Inr (JNumber (Finite 0)))"
proof -
  have a: "list_all is_js_space (concat (map textContent [Text [CHR 0x20, CHR 0x0A], Text [CHR 0x09]]))"
    by (simp add: is_js_space_def)
  have b: "list_all is_js_space (concat (map textContent []))" by simp
  from integer_blank_is_zero[OF a] integer_blank_is_zero[OF b] a show ?thesis by simp
qed

subsection \<open>What the writer emits\<close>

lemma ser_undefined_as_null:
  "ser_val h (undefined_as_null v) = ser_val h v"
  "arr h (map undefined_as_null items) = arr h items"
  "arr_loop h (map undefined_as_null items) = arr_loop h items"
  "ser_dict h (map (\<lambda>kv. (fst kv, undefined_as_null (snd kv))) entries) = ser_dict h entries"
  "dict_loop h (map (\<lambda>kv. (fst kv, undefined_as_null (snd kv))) entries) = dict_loop h entries"
  by (induction h v and h items and h items and h entries and h entries
      rule: ser_val_arr_arr_loop_ser_dict_dict_loop.induct)
    (simp_all cong: sum.case_cong)

lemma append_child_append: "append_child c (xs @ ys) = append_child c xs @ ys"
  by (cases c) simp_all

lemma arr_loop_append:
  "arr_loop h (xs @ ys) =
     (case arr_loop h xs of
        Inl e \<Rightarrow> Inl e
      | Inr cs \<Rightarrow> (case arr_loop h ys of Inl e \<Rightarrow> Inl e | Inr ds \<Rightarrow> Inr (cs @ ds)))"
proof (induction xs)
  case Nil
  then show ?case by (simp split: sum.splits)
next
  case (Cons x xs)
  then show ?case
    by (cases "ser_val h x") (auto simp: append_child_append split: sum.splits)
qed

text \<open>
  C10. \<^verbatim>\<open>undefined\<close> is written exactly like \<^verbatim>\<open>null\<close>: it has no element; a value
  with \<^verbatim>\<open>undefined\<close> anywhere is written like the value with \<^verbatim>\<open>null\<close> in its place;
  an \<^verbatim>\<open>undefined\<close> array element adds no child to the \<^verbatim>\<open>array\<close> element; for an
  \<^verbatim>\<open>undefined\<close> value of an object only the \<^verbatim>\<open>key\<close> element is written, followed
  directly by what the next entries write.
\<close>

theorem undefined_written_like_null:
  "ser_val h JUndefined = Inr None \<and>
   ser_val h JNull = Inr None \<and>
   serialize h JUndefined = serialize h JNull \<and>
   ser_val h (undefined_as_null v) = ser_val h v \<and>
   arr_loop h (xs @ JUndefined # ys) = arr_loop h (xs @ ys) \<and>
   dict_loop h ((k, JUndefined) # entries) =
     (case dict_loop h entries of Inl e \<Rightarrow> Inl e | Inr cs \<Rightarrow> Inr (el ''key'' k # cs))"
  by (auto simp: serialize_def ser_undefined_as_null arr_loop_append split: sum.splits)

lemma arr_loop_filter_null: "arr_loop h (filter (\<lambda>v. v \<noteq> JNull) items) = arr_loop h items"
  by (induction items) (auto split: sum.splits)

lemmas number_eval = to_double_def floor_log_def quotients.simps products.simps
  round_half_even_def Let_def decimal_candidate_def shortest_digits_from.simps
  format_digits_def show_nat.simps digit_char_def

lemma number_to_string_1_2:
  "number_to_string (Finite 1) = ''1''" "number_to_string (Finite 2) = ''2''"
  by (simp_all add: number_eval cong: let_weak_cong)

text \<open>
  C7. A \<^verbatim>\<open>null\<close> in an array produces no child: the array is written as the array
  without its \<^verbatim>\<open>null\<close> elements is, and \<^verbatim>\<open>[1, null, 2]\<close> is written as an
  \<^verbatim>\<open>array\<close> element with the two children \<^verbatim>\<open><integer>1</integer>\<close> and
  \<^verbatim>\<open><integer>2</integer>\<close>, in that order.
\<close>

theorem array_drops_null:
  "ser_val h JNull = Inr None \<and>
   ser_val h (JArray (filter (\<lambda>v. v \<noteq> JNull) items)) = ser_val h (JArray items) \<and>
   ser_val h (JArray [JNumber (Finite 1), JNull, JNumber (Finite 2)]) =
     Inr (Some (Element ''array'' []
       [Element ''integer'' [] [Text ''1''], Element ''integer'' [] [Text ''2'']]))"
  by (simp add: arr_loop_filter_null number_to_string_1_2 el_def del: number_to_string.simps)

text \<open>
  C8. The number \<open>10 ^ 21\<close> is integral, and the writer emits it as an \<^verbatim>\<open>integer\<close>
  element whose text is \<^verbatim>\<open>1e+21\<close>, which is not a decimal integer string; the parser
  throws a \<^verbatim>\<open>SyntaxError\<close> on that element.
\<close>

theorem integral_number_in_exponent_notation:
  "is_integer (Finite (10 ^ 21)) \<and>
   ser_val h (JNumber (Finite (10 ^ 21))) = Inr (Some (Element ''integer'' [] [Text ''1e+21''])) \<and>
   parse_val h (Element ''integer'' [] [Text ''1e+21'']) = ([], Inl SyntaxError)"
proof -
  have s: "number_to_string (Finite (10 ^ 21)) = ''1e+21''"
    by (simp add: number_eval cong: let_weak_cong)
  have n: "string_to_number ''1e+21'' = Finite (10 ^ 21)"
    by (simp add: string_to_number_def trim_def is_js_space_def parse_decimal_def split_sign_def
      parse_unsigned_decimal_def parse_exponent_def is_digit_def digits_value_def digit_value_def
      number_eval cong: let_weak_cong)
  have b: "string_to_bigint ''1e+21'' = None"
    by (simp add: string_to_bigint_def trim_def is_js_space_def split_sign_def is_digit_def
      parse_nondecimal_def Let_def)
  have "parse_int ''1e+21'' = Inl SyntaxError"
    unfolding parse_int_def n b Let_def by simp
  moreover have "is_integer (Finite (10 ^ 21))" by simp
  moreover have "ser_val h (JNumber (Finite (10 ^ 21)))
      = Inr (Some (Element ''integer'' [] [Text ''1e+21'']))"
    unfolding ser_val.simps s by (simp add: el_def)
  ultimately show ?thesis by (simp only: parse_val_integer concat.simps list.map textContent.simps
      append_Nil2 simp_thms)
qed

text \<open>The three outcomes of \<^verbatim>\<open>parse\<close> before it reads a value.\<close>

lemma parse_malformed:
  "querySelector ''parsererror'' doc = Some err \<Longrightarrow>
     parse h doc = ([], Inl (XMLError (''Error parsing XML: '' @ textContent err)))"
  by (simp add: parse_def)

lemma parse_missing_plist:
  "querySelector ''parsererror'' doc = None \<Longrightarrow> querySelector ''plist'' doc = None \<Longrightarrow>
     parse h doc = ([], Inl MissingPlist)"
  by (simp add: parse_def)

lemma querySelector_list_texts:
  "filter is_element cs = [] \<Longrightarrow> querySelector_list tag cs = None"
proof (induction cs)
  case Nil
  then show ?case by simp
next
  case (Cons c cs)
  then show ?case by (cases c) (simp_all split: if_splits)
qed

lemma parse_empty_plist:
  "children (Element ''plist'' a cs) = [] \<Longrightarrow> parse h (Element ''plist'' a cs) = ([], Inr JNull)"
  by (simp add: parse_def querySelector_list_texts)

text \<open>
  C6. A document whose root is not \<^verbatim>\<open>plist\<close> but has a \<^verbatim>\<open>plist\<close> element further
  down is parsed from that element: \<^verbatim>\<open>querySelector\<close> finds it.
\<close>

theorem nested_plist_is_parsed:
  "parse h (Element ''a'' [] [Element ''plist'' [] [Element ''true'' [] []]])
     = ([], Inr (JBoolean True))"
  by (simp add: parse_def parse_val.simps)

subsection \<open>Dictionaries with an odd number of children\<close>

lemma parse_val_dict: "parse_val h (Element ''dict'' a cs) = parse_dict h (Element ''dict'' a cs)"
  by (simp add: parse_val.simps)

lemma nth_opt_append_less: "i < length xs \<Longrightarrow> nth_opt (xs @ ys) i = nth_opt xs i"
  by (simp add: nth_opt_def nth_append)

lemma dict_entry_append:
  assumes "i * 2 + 1 < length xs"
  shows "dict_entry h (xs @ ys) i = dict_entry h xs i"
proof -
  have "i * 2 < length xs" using assms by simp
  then have 1: "nth_opt (xs @ ys) (i * 2) = nth_opt xs (i * 2)" by (rule nth_opt_append_less)
  have 2: "nth_opt (xs @ ys) (i * 2 + 1) = nth_opt xs (i * 2 + 1)"
    using assms by (rule nth_opt_append_less)
  show ?thesis
    unfolding dict_entry.simps[of h "xs @ ys"] dict_entry.simps[of h xs] 1 2 ..
qed

text \<open>A pair whose key slot is not tagged \<^verbatim>\<open>key\<close> gives a warning and no entry.\<close>

lemma dict_entry_not_key:
  assumes "nth_opt cs (i * 2) = Some k" "tag_of k \<noteq> ''key''"
  shows "dict_entry h cs i = ([''Missing key in dictionary or malformed structure''], Inr None)"
  using assms by (simp add: dict_entry.simps)

text \<open>
  C3. When a \<^verbatim>\<open>dict\<close> element has an odd number of children, the last child is never
  looked at: the element is read as the \<^verbatim>\<open>dict\<close> without that child is. A last
  \<^verbatim>\<open>key\<close> with no value after it is therefore not in the result, and no warning is
  written.
\<close>

theorem dict_last_odd_child_ignored:
  assumes "is_element k" "even (length (children (Element ''dict'' a cs)))"
  shows "parse_val h (Element ''dict'' a (cs @ [k])) = parse_val h (Element ''dict'' a cs)"
proof -
  let ?xs = "filter is_element cs"
  have ev: "even (length ?xs)" using assms(2) by simp
  have ch: "children (Element ''dict'' a (cs @ [k])) = ?xs @ [k]" using assms(1) by simp
  have len: "length (?xs @ [k]) div 2 = length ?xs div 2" using ev by auto
  have "array_from (dict_entry h (?xs @ [k])) [0 ..< length ?xs div 2]
      = array_from (dict_entry h ?xs) [0 ..< length ?xs div 2]"
  proof (rule array_from_cong[OF refl])
    fix i assume "i \<in> set [0 ..< length ?xs div 2]"
    then have "i < length ?xs div 2" by simp
    then have "i * 2 + 1 < length ?xs" using ev by (auto elim!: evenE)
    then show "dict_entry h (?xs @ [k]) i = dict_entry h ?xs i" by (rule dict_entry_append)
  qed
  then show ?thesis
    unfolding parse_val_dict parse_dict.simps[of h "Element ''dict'' a (cs @ [k])"]
      parse_dict.simps[of h "Element ''dict'' a cs"] ch len
    by simp
qed

theorem dict_last_odd_child_ignored_witness:
  "is_element (Element ''key'' [] [Text ''a'']) \<and>
   even (length (children (Element ''dict'' [] []))) \<and>
   parse_val \<lparr>has_fromBase64 = True, has_toBase64 = True, date_parse = (\<lambda>s. None),
       date_toISOString = (\<lambda>t. [])\<rparr>
     (Element ''dict'' [] ([] @ [Element ''key'' [] [Text ''a'']])) = ([], Inr (JObject []))"
proof -
  let ?h = "\<lparr>has_fromBase64 = True, has_toBase64 = True, date_parse = (\<lambda>s. None),
       date_toISOString = (\<lambda>t. [])\<rparr>"
  have e: "parse_val ?h (Element ''dict'' [] []) = ([], Inr (JObject []))"
    by (simp add: parse_val.simps parse_dict.simps fromEntries_def List.map_filter_def)
  have a: "is_element (Element ''key'' [] [Text ''a''])" by simp
  have b: "even (length (children (Element ''dict'' [] [])))" by simp
  from dict_last_odd_child_ignored[OF a b, of ?h] e a b show ?thesis by simp
qed

subsection \<open>Numeric elements whose text is not numeric\<close>

lemma to_double_not_NaN [simp]: "to_double q \<noteq> NaN" "negate (to_double q) \<noteq> NaN"
  by (simp_all add: to_double_def Let_def)

lemma parse_decimal_not_NaN: "parse_decimal s = Some (v, r) \<Longrightarrow> v \<noteq> NaN"
  by (auto simp: parse_decimal_def parse_unsigned_decimal_def Let_def
      split: option.splits if_splits prod.splits)

lemma split_sign_cases:
  "split_sign s = (neg, ds) \<Longrightarrow>
     (neg \<and> s = CHR ''-'' # ds) \<or> (\<not> neg \<and> s = CHR ''+'' # ds) \<or> (\<not> neg \<and> s = ds)"
  by (auto simp: split_sign_def split: list.splits if_splits)

lemma bigint_literal_is_numeric:
  assumes "string_to_bigint s = Some i"
  shows "string_to_number s \<noteq> NaN"
proof (cases "trim s = []")
  case True
  then show ?thesis by (simp add: string_to_number_def)
next
  case False
  obtain neg ds where sr: "split_sign (trim s) = (neg, ds)" by (cases "split_sign (trim s)")
  show ?thesis
  proof (cases "ds \<noteq> [] \<and> list_all is_digit ds")
    case True
    then have d: "ds \<noteq> []" "list_all is_digit ds" by simp_all
    from split_sign_cases[OF sr]
    have "\<exists>v. parse_decimal (trim s) = Some (v, []) \<and> v \<noteq> NaN"
      using parse_decimal_digits[OF d] parse_decimal_minus_digits[OF d]
        parse_decimal_plus_digits[OF d] by auto
    then show ?thesis using False by (auto simp: string_to_number_def)
  next
    case no_digits: False
    then have "map_option int (parse_nondecimal (trim s)) = Some i"
      using assms False sr by (auto simp: string_to_bigint_def Let_def)
    then obtain n where n: "parse_nondecimal (trim s) = Some n" by auto
    show ?thesis
      using False n parse_decimal_not_NaN[of "trim s"]
      by (auto simp: string_to_number_def Let_def split: option.splits list.splits)
  qed
qed

lemma parse_int_not_numeric:
  assumes "string_to_number s = NaN"
  shows "parse_int s = Inl SyntaxError"
proof -
  have "string_to_bigint s = None"
    using bigint_literal_is_numeric[of s] assms by (cases "string_to_bigint s") auto
  then show ?thesis by (simp add: parse_int_def assms)
qed

lemma parseFloat_no_prefix: "parse_decimal (dropWhile is_js_space s) = None \<Longrightarrow> parseFloat s = NaN"
  by (simp add: parseFloat_def)

lemma array_from_error:
  assumes "x \<in> set xs" "f x = (w, Inl e)"
  shows "\<exists>w' e'. array_from f xs = (w', Inl e')"
  using assms
proof (induction xs)
  case Nil
  then show ?case by simp
next
  case (Cons y ys)
  obtain wy ry where y: "f y = (wy, ry)" by (cases "f y")
  show ?case
  proof (cases ry)
    case (Inl e1)
    then show ?thesis using y by simp
  next
    case (Inr v)
    then have "x \<noteq> y" using y Cons.prems(2) by auto
    with Cons obtain w' e' where "array_from f ys = (w', Inl e')" by auto
    then show ?thesis using y Inr by simp
  qed
qed

lemma parse_val_array_step:
  assumes "is_element n" "tag_of n = ''array''"
  shows "parse_val h n = (case array_from (parse_val h) (children n) of
           (w, Inl e) \<Rightarrow> (w, Inl e)
         | (w, Inr vs) \<Rightarrow> (w, Inr (JArray vs)))"
  using assms by (subst parse_val.simps) simp

lemma parse_val_dict_step:
  assumes "is_element n" "tag_of n = ''dict''"
  shows "parse_val h n = parse_dict h n"
  using assms by (subst parse_val.simps) simp

lemma dict_entry_error:
  assumes "i * 2 + 1 < length cs" "tag_of (cs ! (i * 2)) = ''key''"
    "parse_val h (cs ! (i * 2 + 1)) = (w1, Inl e1)"
  shows "dict_entry h cs i = (w1, Inl e1)"
  using assms by (simp add: dict_entry.simps nth_opt_def)

lemma visits_error:
  assumes "visits r n" "parse_val h n = (w, Inl e)"
  shows "\<exists>w' e'. parse_val h r = (w', Inl e')"
  using assms
proof (induction rule: visits.induct)
  case (self n)
  then show ?case by blast
next
  case (array n c m)
  from array.IH[OF array.prems] obtain w1 e1 where "parse_val h c = (w1, Inl e1)" by blast
  from array_from_error[of c "children n" "parse_val h", OF array.hyps(3) this]
  obtain w2 e2 where "array_from (parse_val h) (children n) = (w2, Inl e2)" by blast
  then show ?case unfolding parse_val_array_step[OF array.hyps(1,2)] by simp
next
  case (dict n i m)
  from dict.IH[OF dict.prems]
  obtain w1 e1 where v: "parse_val h (children n ! (i * 2 + 1)) = (w1, Inl e1)" by blast
  have i1: "i * 2 + 1 < length (children n)" using dict.hyps(3) by auto
  have de: "dict_entry h (children n) i = (w1, Inl e1)"
    using i1 dict.hyps(4) v by (rule dict_entry_error)
  have "i \<in> set [0 ..< length (children n) div 2]" using dict.hyps(3) by simp
  from array_from_error[of i _ "dict_entry h (children n)", OF this de]
  obtain w2 e2 where
    "array_from (dict_entry h (children n)) [0 ..< length (children n) div 2] = (w2, Inl e2)"
    by blast
  then show ?case
    unfolding parse_val_dict_step[OF dict.hyps(1,2)] parse_dict.simps[of h n] by simp
qed

lemma visits_element: "visits r n \<Longrightarrow> is_element r \<and> is_element n"
  by (induction rule: visits.induct) simp_all

lemma parse_cases:
  "parse h doc =
     (case querySelector ''parsererror'' doc of
        Some err \<Rightarrow> ([], Inl (XMLError (''Error parsing XML: '' @ textContent err)))
      | None \<Rightarrow>
          (case querySelector ''plist'' doc of
             None \<Rightarrow> ([], Inl MissingPlist)
           | Some plist \<Rightarrow>
               (case children plist of
                  [] \<Rightarrow> ([], Inr JNull)
                | e # rest \<Rightarrow> parse_val h e)))"
  by (simp add: parse_def)

lemma parse_plist_error:
  assumes "is_element r" "parse_val h r = (w, Inl e)"
  shows "\<exists>w' e'. parse h (Element ''plist'' a [r]) = (w', Inl e')"
proof (cases "querySelector ''parsererror'' (Element ''plist'' a [r])")
  case None
  then show ?thesis using assms by (simp add: parse_def)
next
  case (Some err)
  then show ?thesis unfolding parse_cases by simp
qed

text \<open>
  C4, as the code has it. An \<^verbatim>\<open>integer\<close> element whose text is not numeric
  (\<^verbatim>\<open>Number(text)\<close> is \<^verbatim>\<open>NaN\<close>) throws a \<^verbatim>\<open>SyntaxError\<close>, and the whole call fails:
  every element from which the parser reaches it, and the document, give an error and no
  value. A \<^verbatim>\<open>real\<close> element never fails: its value is \<^verbatim>\<open>parseFloat\<close> of its text,
  which is \<^verbatim>\<open>NaN\<close> when the text has no decimal literal at its start.
\<close>

theorem non_numeric_integer_fails_real_is_NaN:
  assumes "visits r n" "tag_of n = ''integer''" "string_to_number (textContent n) = NaN"
  shows "parse_val h n = ([], Inl SyntaxError) \<and>
         (\<exists>w e. parse_val h r = (w, Inl e)) \<and>
         (\<exists>w e. parse h (Element ''plist'' a [r]) = (w, Inl e)) \<and>
         parse_val h (Element ''real'' b cs)
           = ([], Inr (JNumber (parseFloat (concat (map textContent cs))))) \<and>
         (parse_decimal (dropWhile is_js_space (concat (map textContent cs))) = None \<longrightarrow>
            parse_val h (Element ''real'' b cs) = ([], Inr (JNumber NaN)))"
proof -
  note el = visits_element[OF assms(1)]
  have n: "parse_val h n = ([], Inl SyntaxError)"
    using el assms(2) parse_int_not_numeric[OF assms(3)]
    by (subst parse_val.simps) simp
  from visits_error[OF assms(1) n]
  obtain w e where r: "parse_val h r = (w, Inl e)" by blast
  from parse_plist_error[OF conjunct1[OF el] r]
  have d: "\<exists>w e. parse h (Element ''plist'' a [r]) = (w, Inl e)" .
  show ?thesis using n r d by (simp add: parse_val_real parseFloat_no_prefix)
qed

lemma string_to_number_abc: "string_to_number ''abc'' = NaN"
  by (simp add: string_to_number_def trim_def is_js_space_def parse_decimal_def split_sign_def
      parse_unsigned_decimal_def is_digit_def parse_nondecimal_def Let_def)

theorem non_numeric_integer_fails_real_is_NaN_witness:
  "visits (Element ''array'' [] [Element ''true'' [] [], Element ''integer'' [] [Text ''abc'']])
     (Element ''integer'' [] [Text ''abc'']) \<and>
   tag_of (Element ''integer'' [] [Text ''abc'']) = ''integer'' \<and>
   string_to_number (textContent (Element ''integer'' [] [Text ''abc''])) = NaN \<and>
   parse_val \<lparr>has_fromBase64 = True, has_toBase64 = True, date_parse = (\<lambda>s. None),
       date_toISOString = (\<lambda>t. [])\<rparr> (Element ''integer'' [] [Text ''abc''])
     = ([], Inl SyntaxError) \<and>
   (\<exists>w e. parse \<lparr>has_fromBase64 = True, has_toBase64 = True, date_parse = (\<lambda>s. None),
       date_toISOString = (\<lambda>t. [])\<rparr>
     (Element ''plist'' []
       [Element ''array'' [] [Element ''true'' [] [], Element ''integer'' [] [Text ''abc'']]])
     = (w, Inl e))"
proof -
  let ?n = "Element ''integer'' [] [Text ''abc'']"
  let ?r = "Element ''array'' [] [Element ''true'' [] [], ?n]"
  have v: "visits ?r ?n"
    by (rule visits.array[of ?r ?n]) (simp_all add: visits.self)
  have t: "tag_of ?n = ''integer''" by simp
  have s: "string_to_number (textContent ?n) = NaN" by (simp add: string_to_number_abc)
  from non_numeric_integer_fails_real_is_NaN[OF v t s] v t s show ?thesis by blast
qed

text \<open>
  C4 as stated fails for \<^verbatim>\<open>real\<close>: the text \<^verbatim>\<open>abc\<close> is not numeric, and the document
  \<^verbatim>\<open><plist><real>abc</real></plist>\<close> is read as the number \<^verbatim>\<open>NaN\<close>, with no error.
\<close>

theorem real_non_numeric_counterexample:
  "string_to_number ''abc'' = NaN \<and>
   parse \<lparr>has_fromBase64 = True, has_toBase64 = True, date_parse = (\<lambda>s. None),
       date_toISOString = (\<lambda>t. [])\<rparr>
     (Element ''plist'' [] [Element ''real'' [] [Text ''abc'']]) = ([], Inr (JNumber NaN))"
proof -
  have "parseFloat ''abc'' = NaN"
    by (simp add: parseFloat_def parse_decimal_def split_sign_def parse_unsigned_decimal_def
        is_js_space_def is_digit_def Let_def)
  then show ?thesis by (simp add: string_to_number_abc parse_def parse_val_real)
qed

subsection \<open>Writing, then reading\<close>



























end
